theory Spec2Isabelle
  imports Complex_Main
begin

section \<open>Data model (src/ongrid.ts, lines 5-38)\<close>

text \<open>
  The program's \<^verbatim>\<open>number\<close> is modelled in three ways. Grid coordinates, grid dimensions
  and storage indices are integers (the iterator only ever counts in steps of one from
  \<open>-1\<close> and \<open>0\<close>, \<^verbatim>\<open>main\<close> uses integer dimensions). In the embedding of the whole
  update pass, rates, progress, times and pixel lengths are real numbers with exact
  arithmetic: rounding of IEEE doubles and the values \<^verbatim>\<open>Infinity\<close> and \<^verbatim>\<open>NaN\<close> are
  outside that embedding. A quotient by zero is \<^verbatim>\<open>Infinity\<close> or \<^verbatim>\<open>NaN\<close> in the
  program and \<open>0\<close> in HOL, so every statement below that depends on the value of a
  quotient assumes that the divisor is not zero. The wrap loop and the addition of lines
  125-128, whose result depends on the rounding, are embedded a second time on IEEE
  doubles (the type \<open>double\<close> below); what is said of every value of \<^verbatim>\<open>cycleProgress\<close>
  is said there.
\<close>

record 'a v2 =
  x :: 'a
  y :: 'a

text \<open>
  \<^verbatim>\<open>EntityKind\<close> is a numeric enum: at run time a kind is a number, and only the type
  checker keeps it within the four declared members. \<open>Unknown n\<close> stands for a run-time
  value \<open>n\<close> that is none of them.
\<close>

datatype EntityKind = NoneKind | Generator | Motor | Producer | Unknown int

record Entity =
  kind :: EntityKind
  currentRate :: real
  cycleProgress :: real

text \<open>
  \<^verbatim>\<open>handle.entity\<close> is a reference to an object of \<^verbatim>\<open>entities.storage\<close>, or \<^verbatim>\<open>null\<close>, or
  (reading the array past its end) \<^verbatim>\<open>undefined\<close>. The storage list is the store and
  \<open>Ref i\<close> is the reference to its \<open>i\<close>-th object, so that a write through a handle is
  seen by every later read of the array.
\<close>

datatype EntityRef = Null | Undefined | Ref nat

record EntityHandle =
  entity :: EntityRef
  index :: int
  pos :: "int v2"

record Cursor =
  cursorPos :: "real v2"
  leftButtonDown :: bool

record WorldMargins =
  top' :: real
  bottom :: real
  left :: real
  right :: real

record GameState =
  lastTimestamp :: real
  worldDim :: "int v2"
  cursor :: Cursor
  storage :: "Entity list"
  referenceCycleDuration :: real
  cellDimPx :: real
  gridCellBorderWidthPx :: real
  worldMargins :: WorldMargins
  currentNumber :: real

text \<open>Reading a property of \<^verbatim>\<open>null\<close> or \<^verbatim>\<open>undefined\<close> throws.\<close>

datatype error = TypeError

text \<open>What \<^verbatim>\<open>console.error\<close> has been given.\<close>

datatype Diagnostic = UnknownEntityType EntityKind

type_synonym Console = "Diagnostic list"

section \<open>Grid model (lines 40-63)\<close>

definition posIsInBounds :: "int v2 \<Rightarrow> int v2 \<Rightarrow> bool" where
  "posIsInBounds p bounds \<longleftrightarrow> x p \<ge> 0 \<and> x p < x bounds \<and> y p \<ge> 0 \<and> y p < y bounds"

definition getEntityHandleAtPos :: "GameState \<Rightarrow> int v2 \<Rightarrow> EntityHandle" where
  "getEntityHandleAtPos gameState p =
     (if posIsInBounds p (worldDim gameState) then
        let i = y p * x (worldDim gameState) + x p
        in \<lparr>entity = (if nat i < length (storage gameState) then Ref (nat i) else Undefined),
            index = i, pos = p\<rparr>
      else \<lparr>entity = Null, index = 0, pos = \<lparr>x = 0, y = 0\<rparr>\<rparr>)"

definition setCurrentRate :: "GameState \<Rightarrow> nat \<Rightarrow> real \<Rightarrow> GameState" where
  "setCurrentRate gameState i r =
     gameState\<lparr>storage := (storage gameState)[i := (storage gameState ! i)\<lparr>currentRate := r\<rparr>]\<rparr>"

definition setCycleProgress :: "GameState \<Rightarrow> nat \<Rightarrow> real \<Rightarrow> GameState" where
  "setCycleProgress gameState i c =
     gameState\<lparr>storage := (storage gameState)[i := (storage gameState ! i)\<lparr>cycleProgress := c\<rparr>]\<rparr>"

definition startWorkingConditionally ::
  "GameState \<Rightarrow> EntityHandle \<Rightarrow> EntityKind \<Rightarrow> real \<Rightarrow> error + GameState" where
  "startWorkingConditionally gameState h condition efficiency =
     (case entity h of
        Null \<Rightarrow> Inr gameState
      | Undefined \<Rightarrow> Inl TypeError
      | Ref i \<Rightarrow>
          let gs1 = setCurrentRate gameState i 0;
              entityOnLeftHandle = getEntityHandleAtPos gs1 \<lparr>x = x (pos h) - 1, y = y (pos h)\<rparr>
          in (case entity entityOnLeftHandle of
                Null \<Rightarrow> Inr gs1
              | Undefined \<Rightarrow> Inl TypeError
              | Ref j \<Rightarrow>
                  if kind (storage gs1 ! j) = condition
                  then Inr (setCurrentRate gs1 i (currentRate (storage gs1 ! j) * efficiency))
                  else Inr gs1))"

section \<open>Entity iterator (lines 65-100)\<close>

text \<open>
  The iterator's \<^verbatim>\<open>gameState\<close> field is a reference to the one shared state, which the
  update loop mutates between two calls; the model passes the current state to each call.
\<close>

record EntityIterator =
  handle :: "EntityHandle option"
  iterPos :: "int v2"
  done' :: bool

definition beginEntityIteration :: EntityIterator where
  "beginEntityIteration = \<lparr>handle = None, iterPos = \<lparr>x = - 1, y = 0\<rparr>, done' = False\<rparr>"

definition nextEntity :: "GameState \<Rightarrow> EntityIterator \<Rightarrow> EntityIterator" where
  "nextEntity gameState iterator =
     (if \<not> done' iterator then
        let p1 = (iterPos iterator)\<lparr>x := x (iterPos iterator) + 1\<rparr>;
            newRow = (x p1 \<ge> x (worldDim gameState));
            p2 = (if newRow then \<lparr>x = 0, y = y p1 + 1\<rparr> else p1)
        in if newRow \<and> y p2 \<ge> y (worldDim gameState)
           then iterator\<lparr>handle := None, iterPos := p2, done' := True\<rparr>
           else iterator\<lparr>handle := Some (getEntityHandleAtPos gameState p2), iterPos := p2\<rparr>
      else iterator)"

text \<open>The loop condition's \<^verbatim>\<open>iterator.handle?.entity?.kind === EntityKind.None\<close>.\<close>

definition handleKindIsNone :: "GameState \<Rightarrow> EntityHandle option \<Rightarrow> bool" where
  "handleKindIsNone gameState ho =
     (case ho of
        None \<Rightarrow> False
      | Some h \<Rightarrow> (case entity h of
                    Ref i \<Rightarrow> kind (storage gameState ! i) = NoneKind
                  | _ \<Rightarrow> False))"

function nextNonNullEntity :: "GameState \<Rightarrow> EntityIterator \<Rightarrow> EntityIterator" where
  "nextNonNullEntity gameState iterator =
     (let it1 = nextEntity gameState iterator
      in if \<not> done' it1 \<and> handleKindIsNone gameState (handle it1)
         then nextNonNullEntity gameState it1
         else it1)"
  by pat_completeness auto

definition iterRemaining :: "GameState \<Rightarrow> EntityIterator \<Rightarrow> nat \<times> nat \<times> nat" where
  "iterRemaining gameState iterator =
     (if done' iterator then 0 else 1,
      nat (y (worldDim gameState) - y (iterPos iterator)),
      nat (x (worldDim gameState) - x (iterPos iterator)))"

definition iterOrder :: "((nat \<times> nat \<times> nat) \<times> (nat \<times> nat \<times> nat)) set" where
  "iterOrder = less_than <*lex*> less_than <*lex*> less_than"

lemma wf_iterOrder: "wf iterOrder"
  unfolding iterOrder_def by (intro wf_lex_prod wf_less_than)

lemma trans_iterOrder: "trans iterOrder"
  by (simp add: iterOrder_def)

lemma nextEntity_done: "done' iterator \<Longrightarrow> nextEntity gameState iterator = iterator"
  by (simp add: nextEntity_def)

lemma nextEntity_decreases:
  "\<not> done' iterator \<Longrightarrow>
   (iterRemaining gameState (nextEntity gameState iterator), iterRemaining gameState iterator)
     \<in> iterOrder"
  by (auto simp: nextEntity_def iterRemaining_def iterOrder_def Let_def)

termination nextNonNullEntity
proof (relation "inv_image iterOrder (\<lambda>(gameState, iterator). iterRemaining gameState iterator)")
  show "wf (inv_image iterOrder (\<lambda>(gameState, iterator). iterRemaining gameState iterator))"
    by (simp add: wf_iterOrder)
next
  fix gameState iterator it1
  assume a: "it1 = nextEntity gameState iterator"
    and b: "\<not> done' it1 \<and> handleKindIsNone gameState (handle it1)"
  have "\<not> done' iterator"
    using a b nextEntity_done by fastforce
  then show "((gameState, it1), (gameState, iterator))
      \<in> inv_image iterOrder (\<lambda>(gameState, iterator). iterRemaining gameState iterator)"
    using a nextEntity_decreases by simp
qed

declare nextNonNullEntity.simps [simp del]


section \<open>The update pass of gameUpdateAndRender (lines 102-129)\<close>

text \<open>
  Only the update pass is modelled. The render pass that follows it (lines 131-244) reads
  the state and draws; it assigns to no field of the game state.
\<close>

definition isCursorOver :: "GameState \<Rightarrow> int v2 \<Rightarrow> bool" where
  \<comment> \<open>With \<^verbatim>\<open>cellDimPx\<close> zero the program's quotient is infinite or \<^verbatim>\<open>NaN\<close>, and so is its
      floor, which is equal to no grid coordinate.\<close>
  "isCursorOver gameState p \<longleftrightarrow>
     cellDimPx gameState \<noteq> 0 \<and>
     \<lfloor>(x (cursorPos (cursor gameState)) - left (worldMargins gameState))
        / cellDimPx gameState\<rfloor> = x p \<and>
     \<lfloor>(y (cursorPos (cursor gameState)) - top' (worldMargins gameState))
        / cellDimPx gameState\<rfloor> = y p"

text \<open>The \<^verbatim>\<open>switch\<close> of lines 107-123, for the entity \<open>Ref i\<close> of the handle \<open>h\<close>.\<close>

definition applyRateRule ::
  "real \<Rightarrow> GameState \<Rightarrow> Console \<Rightarrow> EntityHandle \<Rightarrow> nat \<Rightarrow> error + (GameState \<times> Console)" where
  "applyRateRule deltaTime gameState console h i =
     (case kind (storage gameState ! i) of
        Producer \<Rightarrow>
          (case startWorkingConditionally gameState h Motor (8 / 10) of
             Inl e \<Rightarrow> Inl e
           | Inr gs1 \<Rightarrow>
               Inr (gs1\<lparr>currentNumber := currentNumber gs1
                          + currentRate (storage gs1 ! i) * deltaTime / referenceCycleDuration gs1\<rparr>,
                    console))
      | Motor \<Rightarrow>
          (case startWorkingConditionally gameState h Generator (5 / 10) of
             Inl e \<Rightarrow> Inl e
           | Inr gs1 \<Rightarrow> Inr (gs1, console))
      | Generator \<Rightarrow>
          Inr (setCurrentRate gameState i
                 (if isCursorOver gameState (pos h) \<and> leftButtonDown (cursor gameState)
                  then 1 else 0),
               console)
      | k \<Rightarrow> Inr (gameState, console @ [UnknownEntityType k]))"

text \<open>The \<^verbatim>\<open>while\<close> loop of lines 125-127, on the value of \<^verbatim>\<open>entity.cycleProgress\<close>.\<close>

function wrapCycleProgress :: "real \<Rightarrow> real" where
  "wrapCycleProgress c = (if c \<ge> 1 then wrapCycleProgress (c - 1) else c)"
  by pat_completeness auto
termination
proof (relation "measure (\<lambda>c. nat \<lfloor>c\<rfloor>)")
  show "wf (measure (\<lambda>c::real. nat \<lfloor>c\<rfloor>))" by simp
next
  fix c :: real
  assume "1 \<le> c"
  then have "1 \<le> \<lfloor>c\<rfloor>" by linarith
  moreover have "\<lfloor>c - 1\<rfloor> = \<lfloor>c\<rfloor> - 1" by linarith
  ultimately show "(c - 1, c) \<in> measure (\<lambda>c. nat \<lfloor>c\<rfloor>)" by simp
qed

declare wrapCycleProgress.simps [simp del]

text \<open>The body of the \<^verbatim>\<open>for\<close> loop, lines 106-128, for the handle of the iterator.\<close>

definition updateEntity ::
  "real \<Rightarrow> GameState \<Rightarrow> Console \<Rightarrow> EntityHandle \<Rightarrow> error + (GameState \<times> Console)" where
  "updateEntity deltaTime gameState console h =
     (case entity h of
        Null \<Rightarrow> Inl TypeError
      | Undefined \<Rightarrow> Inl TypeError
      | Ref i \<Rightarrow>
          (case applyRateRule deltaTime gameState console h i of
             Inl e \<Rightarrow> Inl e
           | Inr (gs1, console1) \<Rightarrow>
               let gs2 = setCycleProgress gs1 i (wrapCycleProgress (cycleProgress (storage gs1 ! i)))
               in Inr (setCycleProgress gs2 i
                         (cycleProgress (storage gs2 ! i)
                          + deltaTime / referenceCycleDuration gs2 * currentRate (storage gs2 ! i)),
                       console1)))"


text \<open>
  What the body never writes: every field of the state but the storage and
  \<^verbatim>\<open>currentNumber\<close>, the length of the storage and the kind of each of its entities.
\<close>

definition sameGrid :: "GameState \<Rightarrow> GameState \<Rightarrow> bool" where
  "sameGrid gs gs' \<longleftrightarrow>
     gs' = gs\<lparr>storage := storage gs', currentNumber := currentNumber gs'\<rparr> \<and>
     map kind (storage gs') = map kind (storage gs)"

lemma sameGrid_refl: "sameGrid gs gs"
  by (simp add: sameGrid_def)

lemma sameGrid_trans: "sameGrid a b \<Longrightarrow> sameGrid b c \<Longrightarrow> sameGrid a c"
  unfolding sameGrid_def
  by (cases a, cases b, cases c) auto

lemma sameGrid_worldDim: "sameGrid gs gs' \<Longrightarrow> worldDim gs' = worldDim gs"
  unfolding sameGrid_def
  by (cases gs, cases gs') auto

lemma sameGrid_length: "sameGrid gs gs' \<Longrightarrow> length (storage gs') = length (storage gs)"
  unfolding sameGrid_def by (metis length_map)

lemma sameGrid_kind:
  "sameGrid gs gs' \<Longrightarrow> i < length (storage gs) \<Longrightarrow> kind (storage gs' ! i) = kind (storage gs ! i)"
  unfolding sameGrid_def by (metis length_map nth_map)

lemma map_kind_rate: "map kind (xs[i := (xs ! i)\<lparr>currentRate := r\<rparr>]) = map kind xs"
  by (cases "i < length xs") (simp_all add: map_update list_update_same_conv list_update_beyond)

lemma map_kind_progress: "map kind (xs[i := (xs ! i)\<lparr>cycleProgress := c\<rparr>]) = map kind xs"
  by (cases "i < length xs") (simp_all add: map_update list_update_same_conv list_update_beyond)

lemma sameGrid_setCurrentRate: "sameGrid gs (setCurrentRate gs i r)"
  by (simp add: sameGrid_def setCurrentRate_def map_kind_rate)

lemma sameGrid_setCycleProgress: "sameGrid gs (setCycleProgress gs i c)"
  by (simp add: sameGrid_def setCycleProgress_def map_kind_progress)

lemma sameGrid_currentNumber: "sameGrid gs (gs\<lparr>currentNumber := n\<rparr>)"
  by (simp add: sameGrid_def)



lemma sameGrid_startWorkingConditionally:
  "startWorkingConditionally gs h condition efficiency = Inr gs' \<Longrightarrow> sameGrid gs gs'"
  unfolding startWorkingConditionally_def Let_def
  by (auto split: EntityRef.splits if_splits
      simp: sameGrid_refl sameGrid_setCurrentRate
      intro: sameGrid_trans [OF sameGrid_setCurrentRate sameGrid_setCurrentRate])

lemma sameGrid_applyRateRule:
  "applyRateRule deltaTime gs console h i = Inr (gs', console') \<Longrightarrow> sameGrid gs gs'"
  unfolding applyRateRule_def
  by (auto split: EntityKind.splits sum.splits
      simp: sameGrid_refl sameGrid_setCurrentRate
      intro: sameGrid_trans [OF sameGrid_startWorkingConditionally sameGrid_currentNumber]
       sameGrid_startWorkingConditionally)

lemma sameGrid_updateEntity:
  "updateEntity deltaTime gs console h = Inr (gs', console') \<Longrightarrow> sameGrid gs gs'"
  unfolding updateEntity_def Let_def
  by (auto split: EntityRef.splits sum.splits
      intro: sameGrid_trans [OF sameGrid_applyRateRule
        sameGrid_trans [OF sameGrid_setCycleProgress sameGrid_setCycleProgress]])


lemma nextNonNullEntity_done:
  "done' iterator \<Longrightarrow> nextNonNullEntity gameState iterator = iterator"
  by (subst nextNonNullEntity.simps) (simp add: nextEntity_done)

lemma nextNonNullEntity_decreases:
  "\<not> done' iterator \<Longrightarrow>
   (iterRemaining gameState (nextNonNullEntity gameState iterator),
    iterRemaining gameState iterator) \<in> iterOrder"
proof (induction gameState iterator rule: nextNonNullEntity.induct)
  case (1 gameState iterator)
  let ?it1 = "nextEntity gameState iterator"
  have step: "(iterRemaining gameState ?it1, iterRemaining gameState iterator) \<in> iterOrder"
    using "1.prems" by (rule nextEntity_decreases)
  show ?case
  proof (cases "\<not> done' ?it1 \<and> handleKindIsNone gameState (handle ?it1)")
    case True
    then have "(iterRemaining gameState (nextNonNullEntity gameState ?it1),
                iterRemaining gameState ?it1) \<in> iterOrder"
      using "1.IH" by simp
    then have "(iterRemaining gameState (nextNonNullEntity gameState ?it1),
                iterRemaining gameState iterator) \<in> iterOrder"
      using step trans_iterOrder by (meson transD)
    moreover have "nextNonNullEntity gameState iterator = nextNonNullEntity gameState ?it1"
      using True by (subst nextNonNullEntity.simps) simp
    ultimately show ?thesis by simp
  next
    case False
    then have "nextNonNullEntity gameState iterator = ?it1"
      by (subst nextNonNullEntity.simps) auto
    then show ?thesis using step by simp
  qed
qed

lemma iterRemaining_sameGrid:
  "sameGrid gs gs' \<Longrightarrow> iterRemaining gs' iterator = iterRemaining gs iterator"
  by (simp add: iterRemaining_def sameGrid_worldDim)

text \<open>
  The \<^verbatim>\<open>for\<close> loop of line 105, entered with the iterator already advanced to the first
  occupied cell. \<^verbatim>\<open>entityIterator.handle!.entity!\<close> asserts nothing at run time: reading
  \<^verbatim>\<open>kind\<close> of a missing handle or entity throws.
\<close>

function updateEntities ::
  "real \<Rightarrow> GameState \<Rightarrow> Console \<Rightarrow> EntityIterator \<Rightarrow> error + (GameState \<times> Console)" where
  "updateEntities deltaTime gameState console entityIterator =
     (if done' entityIterator then Inr (gameState, console)
      else (case handle entityIterator of
              None \<Rightarrow> Inl TypeError
            | Some h \<Rightarrow>
                (case updateEntity deltaTime gameState console h of
                   Inl e \<Rightarrow> Inl e
                 | Inr (gs1, console1) \<Rightarrow>
                     updateEntities deltaTime gs1 console1 (nextNonNullEntity gs1 entityIterator))))"
  by pat_completeness auto
termination
proof (relation "inv_image iterOrder (\<lambda>(deltaTime, gameState, console, entityIterator).
                   iterRemaining gameState entityIterator)")
  show "wf (inv_image iterOrder (\<lambda>(deltaTime, gameState, console, entityIterator).
              iterRemaining gameState entityIterator))"
    by (simp add: wf_iterOrder)
next
  fix deltaTime :: real and gameState gs1 :: GameState and console console1 :: Console
    and entityIterator :: EntityIterator and h :: EntityHandle and r :: "GameState \<times> Console"
  assume nd: "\<not> done' entityIterator"
    and r: "updateEntity deltaTime gameState console h = Inr r"
    and p: "(gs1, console1) = r"
  have "sameGrid gameState gs1"
    using r p sameGrid_updateEntity by metis
  then have "iterRemaining gs1 entityIterator = iterRemaining gameState entityIterator"
    by (rule iterRemaining_sameGrid)
  then have "(iterRemaining gs1 (nextNonNullEntity gs1 entityIterator),
              iterRemaining gameState entityIterator) \<in> iterOrder"
    using nextNonNullEntity_decreases [OF nd, of gs1] by simp
  then show "((deltaTime, gs1, console1, nextNonNullEntity gs1 entityIterator),
              (deltaTime, gameState, console, entityIterator))
      \<in> inv_image iterOrder (\<lambda>(deltaTime, gameState, console, entityIterator).
                   iterRemaining gameState entityIterator)"
    by simp
qed

declare updateEntities.simps [simp del]

definition gameUpdateAndRender :: "GameState \<Rightarrow> real \<Rightarrow> error + (GameState \<times> Console)" where
  "gameUpdateAndRender gameState deltaTime =
     updateEntities deltaTime gameState [] (nextNonNullEntity gameState beginEntityIteration)"


section \<open>The wrap loop and the addition on doubles (lines 125-128)\<close>

text \<open>
  A \<^verbatim>\<open>number\<close> of the program is an IEEE 754 binary64 value: a finite value, one of the
  two infinities, or \<^verbatim>\<open>NaN\<close>. The two zeros are one value here: the comparison with \<open>1\<close>
  and the sums below do not tell them apart.
\<close>

datatype double = Fin real | PosInf | NegInf | NaN

definition pow2 :: "int \<Rightarrow> real" where
  "pow2 e = 2 powr of_int e"

text \<open>
  The finite doubles: an integer significand below \<open>2\<^sup>5\<^sup>3\<close> in absolute value, scaled
  by a power of two whose exponent is between \<open>-1074\<close> and \<open>971\<close>.
\<close>

definition isDouble :: "real \<Rightarrow> bool" where
  "isDouble r \<longleftrightarrow>
     (\<exists>m e :: int. r = of_int m * pow2 e \<and> \<bar>m\<bar> < 2 ^ 53 \<and> - 1074 \<le> e \<and> e \<le> 971)"

text \<open>
  Rounding to nearest, ties to even: the exact result is divided by the unit in the last
  place of its binade (of the subnormal range, below \<open>2\<^sup>-\<^sup>1\<^sup>0\<^sup>2\<^sup>2\<close>), rounded to an integer
  and scaled back; a rounded value of \<open>2\<^sup>1\<^sup>0\<^sup>2\<^sup>4\<close> or more is an infinity.
\<close>

definition roundEven :: "real \<Rightarrow> int" where
  "roundEven q =
     (let f = \<lfloor>q\<rfloor>
      in if q - of_int f < 1 / 2 then f
         else if 1 / 2 < q - of_int f then f + 1
         else if even f then f else f + 1)"

definition ulpExponent :: "real \<Rightarrow> int" where
  "ulpExponent r = max (- 1074) (\<lfloor>log 2 \<bar>r\<bar>\<rfloor> - 52)"

definition roundReal :: "real \<Rightarrow> real" where
  "roundReal r =
     (if r = 0 then 0
      else of_int (roundEven (r / pow2 (ulpExponent r))) * pow2 (ulpExponent r))"

definition roundDouble :: "real \<Rightarrow> double" where
  "roundDouble r =
     (if pow2 1024 \<le> \<bar>roundReal r\<bar> then (if 0 < r then PosInf else NegInf)
      else Fin (roundReal r))"

text \<open>The operators \<^verbatim>\<open>+\<close>, unary \<^verbatim>\<open>-\<close>, binary \<^verbatim>\<open>-\<close> and \<^verbatim>\<open>>=\<close> of the program.\<close>

definition jsAdd :: "double \<Rightarrow> double \<Rightarrow> double" where
  "jsAdd a b =
     (case (a, b) of
        (NaN, _) \<Rightarrow> NaN
      | (_, NaN) \<Rightarrow> NaN
      | (PosInf, NegInf) \<Rightarrow> NaN
      | (NegInf, PosInf) \<Rightarrow> NaN
      | (PosInf, _) \<Rightarrow> PosInf
      | (_, PosInf) \<Rightarrow> PosInf
      | (NegInf, _) \<Rightarrow> NegInf
      | (_, NegInf) \<Rightarrow> NegInf
      | (Fin u, Fin v) \<Rightarrow> roundDouble (u + v))"

definition jsNeg :: "double \<Rightarrow> double" where
  "jsNeg a = (case a of Fin u \<Rightarrow> Fin (- u) | PosInf \<Rightarrow> NegInf | NegInf \<Rightarrow> PosInf | NaN \<Rightarrow> NaN)"

definition jsSub :: "double \<Rightarrow> double \<Rightarrow> double" where
  "jsSub a b = jsAdd a (jsNeg b)"

definition jsGe :: "double \<Rightarrow> double \<Rightarrow> bool" where
  "jsGe a b =
     (case (a, b) of
        (NaN, _) \<Rightarrow> False
      | (_, NaN) \<Rightarrow> False
      | (PosInf, _) \<Rightarrow> True
      | (_, NegInf) \<Rightarrow> True
      | (NegInf, _) \<Rightarrow> False
      | (_, PosInf) \<Rightarrow> False
      | (Fin u, Fin v) \<Rightarrow> v \<le> u)"

text \<open>
  The \<^verbatim>\<open>while\<close> loop of lines 125-127 on doubles. Nothing bounds the number of its
  iterations, so its result is optional: \<open>None\<close> when the loop does not exit.
\<close>

partial_function (option) wrapCycleProgressDouble :: "double \<Rightarrow> double option" where
  "wrapCycleProgressDouble c =
     (if jsGe c (Fin 1) then wrapCycleProgressDouble (jsSub c (Fin 1)) else Some c)"

text \<open>
  Lines 125-128 on doubles: the loop, then the addition of line 128. \<open>increment\<close> is
  the value of \<^verbatim>\<open>deltaTime / gameState.referenceCycleDuration * entity.currentRate\<close>.
\<close>

definition accumulateDouble :: "double \<Rightarrow> double \<Rightarrow> double option" where
  "accumulateDouble c increment =
     (case wrapCycleProgressDouble c of
        None \<Rightarrow> None
      | Some w \<Rightarrow> Some (jsAdd w increment))"


section \<open>Running an iterator to completion\<close>

text \<open>
  The handles that a loop \<^verbatim>\<open>for (it = next(begin); !it.done; next(it))\<close> sees, in order,
  for \<^verbatim>\<open>nextEntity\<close> and for \<^verbatim>\<open>nextNonNullEntity\<close> (lines 105 and 186), on a state that the
  loop body leaves alone.
\<close>

function iterateEntities :: "GameState \<Rightarrow> EntityIterator \<Rightarrow> EntityHandle list" where
  "iterateEntities gameState iterator =
     (let it1 = nextEntity gameState iterator
      in if done' it1 then []
         else (case handle it1 of None \<Rightarrow> [] | Some h \<Rightarrow> [h]) @ iterateEntities gameState it1)"
  by pat_completeness auto
termination
proof (relation "inv_image iterOrder (\<lambda>(gameState, iterator). iterRemaining gameState iterator)")
  show "wf (inv_image iterOrder (\<lambda>(gameState, iterator). iterRemaining gameState iterator))"
    by (simp add: wf_iterOrder)
next
  fix gameState :: GameState and iterator it1 :: EntityIterator
  assume a: "it1 = nextEntity gameState iterator" and b: "\<not> done' it1"
  have "\<not> done' iterator"
    using a b nextEntity_done by fastforce
  then show "((gameState, it1), (gameState, iterator))
      \<in> inv_image iterOrder (\<lambda>(gameState, iterator). iterRemaining gameState iterator)"
    using a nextEntity_decreases by simp
qed

declare iterateEntities.simps [simp del]

function iterateNonNullEntities :: "GameState \<Rightarrow> EntityIterator \<Rightarrow> EntityHandle list" where
  "iterateNonNullEntities gameState iterator =
     (let it1 = nextNonNullEntity gameState iterator
      in if done' it1 then []
         else (case handle it1 of None \<Rightarrow> [] | Some h \<Rightarrow> [h])
              @ iterateNonNullEntities gameState it1)"
  by pat_completeness auto
termination
proof (relation "inv_image iterOrder (\<lambda>(gameState, iterator). iterRemaining gameState iterator)")
  show "wf (inv_image iterOrder (\<lambda>(gameState, iterator). iterRemaining gameState iterator))"
    by (simp add: wf_iterOrder)
next
  fix gameState :: GameState and iterator it1 :: EntityIterator
  assume a: "it1 = nextNonNullEntity gameState iterator" and b: "\<not> done' it1"
  have "\<not> done' iterator"
    using a b nextNonNullEntity_done by fastforce
  then show "((gameState, it1), (gameState, iterator))
      \<in> inv_image iterOrder (\<lambda>(gameState, iterator). iterRemaining gameState iterator)"
    using a nextNonNullEntity_decreases by simp
qed

declare iterateNonNullEntities.simps [simp del]

section \<open>The state literal of main (lines 249-261)\<close>

text \<open>
  The game state as \<^verbatim>\<open>main\<close> declares it, before the storage is filled.
\<close>

definition initialGameState :: GameState where
  "initialGameState =
     \<lparr>lastTimestamp = 0,
      worldDim = \<lparr>x = 10, y = 10\<rparr>,
      cursor = \<lparr>cursorPos = \<lparr>x = 0, y = 0\<rparr>, leftButtonDown = False\<rparr>,
      storage = [],
      referenceCycleDuration = 1000,
      cellDimPx = 50,
      gridCellBorderWidthPx = 1,
      worldMargins = \<lparr>top' = 20, bottom = 30, left = 40, right = 50\<rparr>,
      currentNumber = 0\<rparr>"


section \<open>Position resolution\<close>

lemma index_in_range:
  fixes px py w h :: int
  assumes "0 \<le> px" "px < w" "0 \<le> py" "py < h"
  shows "0 \<le> py * w + px" and "py * w + px < w * h"
proof -
  show "0 \<le> py * w + px" using assms by simp
  have "py + 1 \<le> h" using assms by simp
  then have "(py + 1) * w \<le> h * w"
    using assms by (intro mult_right_mono) auto
  then show "py * w + px < w * h"
    using assms by (simp add: algebra_simps)
qed

text \<open>
  C5. On a grid whose storage holds width times height entities, resolving a position
  gives a reference to an entity of the storage (the one at index \<open>y * width + x\<close>) when
  \<open>0 \<le> x < width\<close> and \<open>0 \<le> y < height\<close>, and the handle with entity \<^verbatim>\<open>null\<close> for every
  other position. \<open>getEntityHandleAtPos\<close> returns a handle in both cases: it has no error
  result.
\<close>

theorem getEntityHandleAtPos_resolves:
  assumes "length (storage gs) = nat (x (worldDim gs) * y (worldDim gs))"
  shows "if 0 \<le> x p \<and> x p < x (worldDim gs) \<and> 0 \<le> y p \<and> y p < y (worldDim gs)
         then \<exists>i. entity (getEntityHandleAtPos gs p) = Ref i \<and> i < length (storage gs)
                  \<and> int i = y p * x (worldDim gs) + x p
         else entity (getEntityHandleAtPos gs p) = Null"
proof (cases "posIsInBounds p (worldDim gs)")
  case True
  then have b: "0 \<le> x p" "x p < x (worldDim gs)" "0 \<le> y p" "y p < y (worldDim gs)"
    by (simp_all add: posIsInBounds_def)
  have "nat (y p * x (worldDim gs) + x p) < length (storage gs)"
    using index_in_range [OF b] assms by simp
  then show ?thesis
    using True b index_in_range(1) [OF b]
    by (simp add: getEntityHandleAtPos_def posIsInBounds_def Let_def)
next
  case False
  then show ?thesis
    by (auto simp: getEntityHandleAtPos_def posIsInBounds_def)
qed

theorem getEntityHandleAtPos_resolves_witness:
  "entity (getEntityHandleAtPos (initialGameState\<lparr>worldDim := \<lparr>x = 0, y = 0\<rparr>\<rparr>)
     \<lparr>x = 0, y = 0\<rparr>) = Null \<and>
   (\<exists>i. entity (getEntityHandleAtPos
            (initialGameState\<lparr>worldDim := \<lparr>x = 2, y = 1\<rparr>,
               storage := replicate 2 \<lparr>kind = NoneKind, currentRate = 0, cycleProgress = 0\<rparr>\<rparr>)
            \<lparr>x = 1, y = 0\<rparr>) = Ref i \<and> i < 2)"
  using getEntityHandleAtPos_resolves
          [of "initialGameState\<lparr>worldDim := \<lparr>x = 0, y = 0\<rparr>\<rparr>" "\<lparr>x = 0, y = 0\<rparr>"]
        getEntityHandleAtPos_resolves
          [of "initialGameState\<lparr>worldDim := \<lparr>x = 2, y = 1\<rparr>,
                 storage := replicate 2 \<lparr>kind = NoneKind, currentRate = 0, cycleProgress = 0\<rparr>\<rparr>"
              "\<lparr>x = 1, y = 0\<rparr>"]
  by (simp add: initialGameState_def)

section \<open>Traversal order\<close>

text \<open>
  The order in the words of the specification: \<open>x\<close> from \<open>0\<close> to \<open>width - 1\<close> fastest-varying,
  then \<open>y\<close> from \<open>0\<close> to \<open>height - 1\<close>.
\<close>

definition rowMajorOrder :: "int \<Rightarrow> int \<Rightarrow> int v2 list" where
  "rowMajorOrder w h = concat (map (\<lambda>j. map (\<lambda>i. \<lparr>x = i, y = j\<rparr>) [0..w - 1]) [0..h - 1])"

lemma v2_x_update: "(p :: int v2)\<lparr>x := a\<rparr> = \<lparr>x = a, y = y p\<rparr>"
  by (cases p) simp

lemma nextEntity_same_row:
  assumes "\<not> done' it" "x (iterPos it) + 1 < x (worldDim gs)"
  shows "nextEntity gs it =
    it\<lparr>handle := Some (getEntityHandleAtPos gs \<lparr>x = x (iterPos it) + 1, y = y (iterPos it)\<rparr>),
       iterPos := \<lparr>x = x (iterPos it) + 1, y = y (iterPos it)\<rparr>\<rparr>"
  using assms by (simp add: nextEntity_def Let_def v2_x_update)

lemma nextEntity_next_row:
  assumes "\<not> done' it" "\<not> x (iterPos it) + 1 < x (worldDim gs)"
    "y (iterPos it) + 1 < y (worldDim gs)"
  shows "nextEntity gs it =
    it\<lparr>handle := Some (getEntityHandleAtPos gs \<lparr>x = 0, y = y (iterPos it) + 1\<rparr>),
       iterPos := \<lparr>x = 0, y = y (iterPos it) + 1\<rparr>\<rparr>"
  using assms by (simp add: nextEntity_def Let_def v2_x_update)

lemma nextEntity_finished:
  assumes "\<not> done' it" "\<not> x (iterPos it) + 1 < x (worldDim gs)"
    "\<not> y (iterPos it) + 1 < y (worldDim gs)"
  shows "done' (nextEntity gs it)"
  using assms by (simp add: nextEntity_def Let_def v2_x_update)

lemma iterateEntities_from:
  assumes "\<not> done' it" "- 1 \<le> x (iterPos it)" "x (iterPos it) < x (worldDim gs)"
    "0 \<le> y (iterPos it)" "y (iterPos it) < y (worldDim gs)" "0 < x (worldDim gs)"
  shows "iterateEntities gs it =
     map (getEntityHandleAtPos gs)
       (map (\<lambda>i. \<lparr>x = i, y = y (iterPos it)\<rparr>) [x (iterPos it) + 1..x (worldDim gs) - 1]
        @ concat (map (\<lambda>j. map (\<lambda>i. \<lparr>x = i, y = j\<rparr>) [0..x (worldDim gs) - 1])
                    [y (iterPos it) + 1..y (worldDim gs) - 1]))"
  using assms
proof (induction gs it rule: iterateEntities.induct)
  case (1 gs it)
  let ?a = "x (iterPos it)" and ?b = "y (iterPos it)"
  let ?w = "x (worldDim gs)" and ?h = "y (worldDim gs)"
  let ?it1 = "nextEntity gs it"
  show ?case
  proof (cases "?a + 1 < ?w")
    case True
    have n: "?it1 = it\<lparr>handle := Some (getEntityHandleAtPos gs \<lparr>x = ?a + 1, y = ?b\<rparr>),
                       iterPos := \<lparr>x = ?a + 1, y = ?b\<rparr>\<rparr>"
      using "1.prems"(1) True by (rule nextEntity_same_row)
    have nd: "\<not> done' ?it1" using n "1.prems"(1) by simp
    have ih: "iterateEntities gs ?it1 =
      map (getEntityHandleAtPos gs)
       (map (\<lambda>i. \<lparr>x = i, y = ?b\<rparr>) [?a + 2..?w - 1]
        @ concat (map (\<lambda>j. map (\<lambda>i. \<lparr>x = i, y = j\<rparr>) [0..?w - 1]) [?b + 1..?h - 1]))"
      using "1.IH" [OF refl nd] "1.prems" True n by (simp add: add.commute)
    have "iterateEntities gs it = getEntityHandleAtPos gs \<lparr>x = ?a + 1, y = ?b\<rparr> # iterateEntities gs ?it1"
      using nd n by (subst iterateEntities.simps) (simp add: Let_def)
    moreover have "[?a + 1..?w - 1] = (?a + 1) # [?a + 2..?w - 1]"
      using True by (simp add: upto_rec1 ac_simps)
    ultimately show ?thesis using ih by simp
  next
    case False
    then have e: "[?a + 1..?w - 1] = []" by simp
    show ?thesis
    proof (cases "?b + 1 < ?h")
      case True
      have n: "?it1 = it\<lparr>handle := Some (getEntityHandleAtPos gs \<lparr>x = 0, y = ?b + 1\<rparr>),
                         iterPos := \<lparr>x = 0, y = ?b + 1\<rparr>\<rparr>"
        using "1.prems"(1) False True by (rule nextEntity_next_row)
      have nd: "\<not> done' ?it1" using n "1.prems"(1) by simp
      have w: "0 < ?w" using "1.prems" by simp
      have ih: "iterateEntities gs ?it1 =
        map (getEntityHandleAtPos gs)
         (map (\<lambda>i. \<lparr>x = i, y = ?b + 1\<rparr>) [1..?w - 1]
          @ concat (map (\<lambda>j. map (\<lambda>i. \<lparr>x = i, y = j\<rparr>) [0..?w - 1]) [?b + 2..?h - 1]))"
        using "1.IH" [OF refl nd] "1.prems" True n w by (simp add: add.commute)
      have "iterateEntities gs it = getEntityHandleAtPos gs \<lparr>x = 0, y = ?b + 1\<rparr> # iterateEntities gs ?it1"
        using nd n by (subst iterateEntities.simps) (simp add: Let_def)
      moreover have "[?b + 1..?h - 1] = (?b + 1) # [?b + 2..?h - 1]"
        using True by (simp add: upto_rec1 ac_simps)
      moreover have "[0..?w - 1] = 0 # [1..?w - 1]"
        using w by (simp add: upto_rec1)
      ultimately show ?thesis using ih e by simp
    next
      case False2: False
      have "done' ?it1"
        using "1.prems"(1) False False2 by (rule nextEntity_finished)
      then have "iterateEntities gs it = []"
        by (subst iterateEntities.simps) (simp add: Let_def)
      moreover have "[?b + 1..?h - 1] = []" using False2 by simp
      ultimately show ?thesis using e by simp
    qed
  qed
qed


lemma nextEntity_handle:
  "\<not> done' (nextEntity gs it) \<Longrightarrow> \<exists>h. handle (nextEntity gs it) = Some h"
  by (auto simp: nextEntity_def Let_def split: if_splits)

lemma iterateNonNullEntities_cong:
  assumes "nextNonNullEntity gs a = nextNonNullEntity gs b"
  shows "iterateNonNullEntities gs a = iterateNonNullEntities gs b"
proof -
  define F where "F r = (if done' r then []
      else (case handle r of None \<Rightarrow> [] | Some h \<Rightarrow> [h]) @ iterateNonNullEntities gs r)" for r
  have "iterateNonNullEntities gs c = F (nextNonNullEntity gs c)" for c
    by (subst iterateNonNullEntities.simps) (simp add: F_def Let_def)
  then show ?thesis using assms by simp
qed

lemma iterateNonNullEntities_filter:
  "iterateNonNullEntities gs it =
     filter (\<lambda>h. \<not> handleKindIsNone gs (Some h)) (iterateEntities gs it)"
proof (induction gs it rule: iterateEntities.induct)
  case (1 gs it)
  let ?it1 = "nextEntity gs it"
  show ?case
  proof (cases "done' ?it1")
    case True
    then have "nextNonNullEntity gs it = ?it1"
      by (subst nextNonNullEntity.simps) (simp add: Let_def)
    then have "iterateNonNullEntities gs it = []"
      using True by (subst iterateNonNullEntities.simps) (simp add: Let_def)
    moreover have "iterateEntities gs it = []"
      using True by (subst iterateEntities.simps) (simp add: Let_def)
    ultimately show ?thesis by simp
  next
    case False
    then obtain h where h: "handle ?it1 = Some h"
      using nextEntity_handle by blast
    have ih: "iterateNonNullEntities gs ?it1 =
       filter (\<lambda>h. \<not> handleKindIsNone gs (Some h)) (iterateEntities gs ?it1)"
      using "1.IH" [OF refl False] .
    have all: "iterateEntities gs it = h # iterateEntities gs ?it1"
      using False h by (subst iterateEntities.simps) (simp add: Let_def)
    show ?thesis
    proof (cases "handleKindIsNone gs (Some h)")
      case True
      then have "nextNonNullEntity gs it = nextNonNullEntity gs ?it1"
        using False h by (subst nextNonNullEntity.simps) (simp add: Let_def)
      then have "iterateNonNullEntities gs it = iterateNonNullEntities gs ?it1"
        by (rule iterateNonNullEntities_cong)
      then show ?thesis using ih all True by simp
    next
      case keep: False
      then have "nextNonNullEntity gs it = ?it1"
        using False h by (subst nextNonNullEntity.simps) (simp add: Let_def)
      then have "iterateNonNullEntities gs it = h # iterateNonNullEntities gs ?it1"
        using False h by (subst iterateNonNullEntities.simps) (simp add: Let_def)
      then show ?thesis using ih all keep by simp
    qed
  qed
qed

lemma beginEntityIteration_simps:
  "\<not> done' beginEntityIteration" "iterPos beginEntityIteration = \<lparr>x = - 1, y = 0\<rparr>"
  by (simp_all add: beginEntityIteration_def)

lemma pos_getEntityHandleAtPos:
  "posIsInBounds p (worldDim gs) \<Longrightarrow> pos (getEntityHandleAtPos gs p) = p"
  by (simp add: getEntityHandleAtPos_def Let_def)

lemma rowMajorOrder_first_row:
  "0 < h \<Longrightarrow> rowMajorOrder w h =
     map (\<lambda>i. \<lparr>x = i, y = 0\<rparr>) [0..w - 1]
     @ concat (map (\<lambda>j. map (\<lambda>i. \<lparr>x = i, y = j\<rparr>) [0..w - 1]) [1..h - 1])"
proof -
  assume "0 < h"
  then have "[0..h - 1] = 0 # [1..h - 1]"
    by (subst upto_rec1) simp_all
  then show ?thesis
    unfolding rowMajorOrder_def by (simp only: list.map concat.simps)
qed

lemma iterateEntities_begin:
  assumes "0 < x (worldDim gs)" and "0 < y (worldDim gs)"
  shows "iterateEntities gs beginEntityIteration
           = map (getEntityHandleAtPos gs) (rowMajorOrder (x (worldDim gs)) (y (worldDim gs)))"
proof -
  have "iterateEntities gs beginEntityIteration =
     map (getEntityHandleAtPos gs)
       (map (\<lambda>i. \<lparr>x = i, y = y (iterPos beginEntityIteration)\<rparr>)
          [x (iterPos beginEntityIteration) + 1..x (worldDim gs) - 1]
        @ concat (map (\<lambda>j. map (\<lambda>i. \<lparr>x = i, y = j\<rparr>) [0..x (worldDim gs) - 1])
                    [y (iterPos beginEntityIteration) + 1..y (worldDim gs) - 1]))"
    using assms by (intro iterateEntities_from) (simp_all add: beginEntityIteration_simps)
  then show ?thesis
    using assms(2) by (simp only: beginEntityIteration_simps rowMajorOrder_first_row v2.simps) simp
qed

lemma set_rowMajorOrder: "set (rowMajorOrder w h) = {p. posIsInBounds p \<lparr>x = w, y = h\<rparr>}"
proof (intro set_eqI iffI)
  fix p assume "p \<in> set (rowMajorOrder w h)"
  then obtain i j where "p = \<lparr>x = i, y = j\<rparr>" "0 \<le> i" "i \<le> w - 1" "0 \<le> j" "j \<le> h - 1"
    unfolding rowMajorOrder_def by auto
  then show "p \<in> {p. posIsInBounds p \<lparr>x = w, y = h\<rparr>}"
    by (simp add: posIsInBounds_def)
next
  fix p :: "int v2" assume "p \<in> {p. posIsInBounds p \<lparr>x = w, y = h\<rparr>}"
  then have b: "x p \<in> set [0..w - 1]" "y p \<in> set [0..h - 1]"
    by (simp_all add: posIsInBounds_def)
  have pe: "p = \<lparr>x = x p, y = y p\<rparr>" by (cases p) simp
  have "p \<in> (\<lambda>i. \<lparr>x = i, y = y p\<rparr>) ` set [0..w - 1]"
    using pe b(1) by (rule image_eqI)
  then have "p \<in> set (map (\<lambda>i. \<lparr>x = i, y = y p\<rparr>) [0..w - 1])"
    by (simp only: set_map)
  moreover have "map (\<lambda>i. \<lparr>x = i, y = y p\<rparr>) [0..w - 1]
      \<in> set (map (\<lambda>j. map (\<lambda>i. \<lparr>x = i, y = j\<rparr>) [0..w - 1]) [0..h - 1])"
    unfolding set_map using b(2) by (rule imageI)
  ultimately show "p \<in> set (rowMajorOrder w h)"
    unfolding rowMajorOrder_def set_concat by (rule UN_I [rotated])
qed

text \<open>
  A grid of three by two cells for the concrete checks: a generator, a motor and a
  producer in the first row, an empty cell, an entity of no declared kind and a producer
  in the second. The cursor is over the cell \<open>(0, 0)\<close> with the button held.
\<close>

definition exampleState :: GameState where
  "exampleState =
     \<lparr>lastTimestamp = 0,
      worldDim = \<lparr>x = 3, y = 2\<rparr>,
      cursor = \<lparr>cursorPos = \<lparr>x = 45, y = 25\<rparr>, leftButtonDown = True\<rparr>,
      storage =
        [\<lparr>kind = Generator, currentRate = 0, cycleProgress = 7 / 10\<rparr>,
         \<lparr>kind = Motor, currentRate = 1, cycleProgress = 0\<rparr>,
         \<lparr>kind = Producer, currentRate = 1, cycleProgress = 5 / 2\<rparr>,
         \<lparr>kind = NoneKind, currentRate = 1, cycleProgress = 3\<rparr>,
         \<lparr>kind = Unknown 7, currentRate = 1 / 4, cycleProgress = 1\<rparr>,
         \<lparr>kind = Producer, currentRate = 1, cycleProgress = 0\<rparr>],
      referenceCycleDuration = 1000,
      cellDimPx = 50,
      gridCellBorderWidthPx = 1,
      worldMargins = \<lparr>top' = 20, bottom = 30, left = 40, right = 50\<rparr>,
      currentNumber = 0\<rparr>"

lemma posIsInBounds_worldDim:
  "posIsInBounds p \<lparr>x = x (worldDim gs), y = y (worldDim gs)\<rparr> = posIsInBounds p (worldDim gs)"
  by (simp add: posIsInBounds_def)

text \<open>
  C6. On a grid of positive width and height, the iterator run from its initial state to
  completion yields the handles of exactly the in-bounds positions, in row-major order
  (\<open>x\<close> from \<open>0\<close> to \<open>width - 1\<close> fastest, then \<open>y\<close> from \<open>0\<close> to \<open>height - 1\<close>), and the
  filtered iterator yields the same sequence without the handles whose entity has kind
  \<^verbatim>\<open>None\<close>.
\<close>

theorem iteration_row_major:
  assumes "0 < x (worldDim gs)" and "0 < y (worldDim gs)"
  shows "map pos (iterateEntities gs beginEntityIteration)
           = rowMajorOrder (x (worldDim gs)) (y (worldDim gs))
       \<and> iterateEntities gs beginEntityIteration
           = map (getEntityHandleAtPos gs) (rowMajorOrder (x (worldDim gs)) (y (worldDim gs)))
       \<and> set (rowMajorOrder (x (worldDim gs)) (y (worldDim gs)))
           = {p. posIsInBounds p (worldDim gs)}
       \<and> iterateNonNullEntities gs beginEntityIteration
           = filter (\<lambda>h. \<not> handleKindIsNone gs (Some h))
               (iterateEntities gs beginEntityIteration)"
proof -
  let ?ps = "rowMajorOrder (x (worldDim gs)) (y (worldDim gs))"
  have a: "iterateEntities gs beginEntityIteration = map (getEntityHandleAtPos gs) ?ps"
    using assms by (rule iterateEntities_begin)
  have s: "set ?ps = {p. posIsInBounds p (worldDim gs)}"
    by (simp only: set_rowMajorOrder posIsInBounds_worldDim)
  have "map (pos \<circ> getEntityHandleAtPos gs) ?ps = ?ps"
    using s by (intro map_idI) (simp add: pos_getEntityHandleAtPos)
  then have "map pos (map (getEntityHandleAtPos gs) ?ps) = ?ps"
    by (simp only: map_map)
  then have "map pos (iterateEntities gs beginEntityIteration) = ?ps"
    using a by simp
  then show ?thesis
    using a s iterateNonNullEntities_filter by blast
qed

lemma upto_example: "[0..(1::int)] = [0, 1]" "[0..(2::int)] = [0, 1, 2]"
  by (simp_all add: upto.simps)

theorem iteration_row_major_witness:
  "map pos (iterateEntities exampleState beginEntityIteration)
     = [\<lparr>x = 0, y = 0\<rparr>, \<lparr>x = 1, y = 0\<rparr>, \<lparr>x = 2, y = 0\<rparr>,
        \<lparr>x = 0, y = 1\<rparr>, \<lparr>x = 1, y = 1\<rparr>, \<lparr>x = 2, y = 1\<rparr>]
   \<and> map pos (iterateNonNullEntities exampleState beginEntityIteration)
     = [\<lparr>x = 0, y = 0\<rparr>, \<lparr>x = 1, y = 0\<rparr>, \<lparr>x = 2, y = 0\<rparr>,
        \<lparr>x = 1, y = 1\<rparr>, \<lparr>x = 2, y = 1\<rparr>]"
  using iteration_row_major [of exampleState]
  by (simp add: exampleState_def rowMajorOrder_def upto_example getEntityHandleAtPos_def
      posIsInBounds_def handleKindIsNone_def)

section \<open>The update pass as a fold over the storage indices\<close>

text \<open>
  A grid is well formed when its dimensions are positive and its storage holds one entity
  per cell. On such a grid the handle of the \<open>k\<close>-th cell in traversal order refers to
  the \<open>k\<close>-th entity of the storage.
\<close>

definition wellFormedGrid :: "GameState \<Rightarrow> bool" where
  "wellFormedGrid gs \<longleftrightarrow>
     0 < x (worldDim gs) \<and> 0 < y (worldDim gs) \<and>
     length (storage gs) = nat (x (worldDim gs) * y (worldDim gs))"

definition posOfIndex :: "GameState \<Rightarrow> nat \<Rightarrow> int v2" where
  "posOfIndex gs k = \<lparr>x = int k mod x (worldDim gs), y = int k div x (worldDim gs)\<rparr>"

definition handleOfIndex :: "GameState \<Rightarrow> nat \<Rightarrow> EntityHandle" where
  "handleOfIndex gs k = \<lparr>entity = Ref k, index = int k, pos = posOfIndex gs k\<rparr>"

lemma getEntityHandleAtPos_inBounds:
  assumes "wellFormedGrid gs" "posIsInBounds p (worldDim gs)"
  shows "getEntityHandleAtPos gs p = handleOfIndex gs (nat (y p * x (worldDim gs) + x p))"
    and "nat (y p * x (worldDim gs) + x p) < length (storage gs)"
proof -
  let ?w = "x (worldDim gs)" and ?h = "y (worldDim gs)"
  have b: "0 \<le> x p" "x p < ?w" "0 \<le> y p" "y p < ?h"
    using assms(2) by (simp_all add: posIsInBounds_def)
  have i: "0 \<le> y p * ?w + x p" "y p * ?w + x p < ?w * ?h"
    using index_in_range [OF b] by simp_all
  show l: "nat (y p * ?w + x p) < length (storage gs)"
    using i assms(1) by (simp add: wellFormedGrid_def)
  have "(y p * ?w + x p) mod ?w = x p" "(y p * ?w + x p) div ?w = y p"
    using b by simp_all
  moreover have "p = \<lparr>x = x p, y = y p\<rparr>" by (cases p) simp
  ultimately have "posOfIndex gs (nat (y p * ?w + x p)) = p"
    using i by (simp add: posOfIndex_def)
  then show "getEntityHandleAtPos gs p = handleOfIndex gs (nat (y p * ?w + x p))"
    using assms(2) l i by (simp add: getEntityHandleAtPos_def handleOfIndex_def Let_def)
qed

lemma posOfIndex_inBounds:
  assumes "wellFormedGrid gs" "k < length (storage gs)"
  shows "posIsInBounds (posOfIndex gs k) (worldDim gs)"
    and "y (posOfIndex gs k) * x (worldDim gs) + x (posOfIndex gs k) = int k"
proof -
  let ?w = "x (worldDim gs)" and ?h = "y (worldDim gs)"
  have w: "0 < ?w" and k: "int k < ?h * ?w"
    using assms by (simp_all add: wellFormedGrid_def mult.commute)
  have "int k div ?w * ?w + int k mod ?w = int k" by simp
  moreover have "0 \<le> int k mod ?w" using w by simp
  ultimately have le: "int k div ?w * ?w \<le> int k" by linarith
  have "int k div ?w < ?h"
  proof (rule ccontr)
    assume "\<not> int k div ?w < ?h"
    then have "?h * ?w \<le> int k div ?w * ?w"
      using w by (intro mult_right_mono) simp_all
    then show False using le k by linarith
  qed
  moreover have "0 \<le> int k div ?w" using w by (simp add: pos_imp_zdiv_nonneg_iff)
  ultimately show "posIsInBounds (posOfIndex gs k) (worldDim gs)"
    using w by (simp add: posIsInBounds_def posOfIndex_def)
  show "y (posOfIndex gs k) * ?w + x (posOfIndex gs k) = int k"
    by (simp add: posOfIndex_def)
qed

lemma getEntityHandleAtPos_posOfIndex:
  assumes "wellFormedGrid gs" "k < length (storage gs)"
  shows "getEntityHandleAtPos gs (posOfIndex gs k) = handleOfIndex gs k"
  using getEntityHandleAtPos_inBounds(1) [OF assms(1) posOfIndex_inBounds(1) [OF assms]]
    posOfIndex_inBounds(2) [OF assms] by simp


lemma upto_as_upt: "[0..int n - 1] = map int [0..<n]"
  by (rule nth_equalityI) simp_all

lemma concat_rows_upt:
  assumes "0 < W"
  shows "concat (map (\<lambda>j. map (\<lambda>i. f i j) [0..<W]) [0..<H])
           = map (\<lambda>k. f (k mod W) (k div W)) [0..<H * W]"
proof (induction H)
  case 0
  show ?case by simp
next
  case (Suc H)
  have "[0..<H * W + W] = [0..<H * W] @ [H * W..<H * W + W]"
    by (rule upt_add_eq_append) simp
  moreover have "map (\<lambda>i. i + H * W) [0..<W] = [H * W..<H * W + W]"
    by (simp add: map_add_upt add.commute)
  ultimately have "[0..<Suc H * W] = [0..<H * W] @ map (\<lambda>i. i + H * W) [0..<W]"
    by (simp add: add.commute)
  moreover have "map (\<lambda>k. f (k mod W) (k div W)) (map (\<lambda>i. i + H * W) [0..<W])
      = map (\<lambda>i. f i H) [0..<W]"
    using assms by (simp add: comp_def)
  ultimately show ?case using Suc.IH by simp
qed

lemma rowMajorOrder_index:
  assumes "wellFormedGrid gs"
  shows "rowMajorOrder (x (worldDim gs)) (y (worldDim gs))
           = map (posOfIndex gs) [0..<length (storage gs)]"
proof -
  obtain W H where W: "x (worldDim gs) = int W" "0 < W" and H: "y (worldDim gs) = int H"
    using assms unfolding wellFormedGrid_def
    by (metis zero_less_imp_eq_int of_nat_0_less_iff)
  have n: "length (storage gs) = H * W"
    using assms W H by (simp add: wellFormedGrid_def nat_mult_distrib mult.commute)
  have "rowMajorOrder (int W) (int H)
      = concat (map (\<lambda>j. map (\<lambda>i. \<lparr>x = int i, y = int j\<rparr>) [0..<W]) [0..<H])"
    by (simp add: rowMajorOrder_def upto_as_upt comp_def)
  also have "\<dots> = map (\<lambda>k. \<lparr>x = int (k mod W), y = int (k div W)\<rparr>) [0..<H * W]"
    using W(2) by (rule concat_rows_upt)
  also have "\<dots> = map (posOfIndex gs) [0..<H * W]"
    by (simp add: posOfIndex_def W H zmod_int zdiv_int)
  finally show ?thesis using W H n by simp
qed

lemma iterateEntities_index:
  assumes "wellFormedGrid gs"
  shows "iterateEntities gs beginEntityIteration
           = map (handleOfIndex gs) [0..<length (storage gs)]"
proof -
  have "iterateEntities gs beginEntityIteration
      = map (getEntityHandleAtPos gs) (map (posOfIndex gs) [0..<length (storage gs)])"
    using assms iterateEntities_begin rowMajorOrder_index
    by (simp add: wellFormedGrid_def)
  also have "\<dots> = map (handleOfIndex gs) [0..<length (storage gs)]"
    using assms by (simp add: getEntityHandleAtPos_posOfIndex)
  finally show ?thesis .
qed

lemma iterateNonNullEntities_index:
  assumes "wellFormedGrid gs"
  shows "iterateNonNullEntities gs beginEntityIteration
           = map (handleOfIndex gs)
               (filter (\<lambda>k. kind (storage gs ! k) \<noteq> NoneKind) [0..<length (storage gs)])"
  using assms
  by (simp add: iterateNonNullEntities_filter iterateEntities_index filter_map comp_def
      handleKindIsNone_def handleOfIndex_def)

text \<open>The loop body applied to a list of handles in turn, stopping at the first error.\<close>

fun runHandles ::
  "real \<Rightarrow> EntityHandle list \<Rightarrow> GameState \<times> Console \<Rightarrow> error + (GameState \<times> Console)" where
  "runHandles deltaTime [] s = Inr s"
| "runHandles deltaTime (h # hs) s =
     (case updateEntity deltaTime (fst s) (snd s) h of
        Inl e \<Rightarrow> Inl e
      | Inr s' \<Rightarrow> runHandles deltaTime hs s')"

lemma getEntityHandleAtPos_sameGrid:
  "sameGrid gs gs' \<Longrightarrow> getEntityHandleAtPos gs' p = getEntityHandleAtPos gs p"
  by (simp add: getEntityHandleAtPos_def sameGrid_worldDim sameGrid_length)

lemma nextEntity_sameGrid: "sameGrid gs gs' \<Longrightarrow> nextEntity gs' it = nextEntity gs it"
  by (simp add: nextEntity_def Let_def sameGrid_worldDim getEntityHandleAtPos_sameGrid)

lemma handleKindIsNone_sameGrid:
  assumes "sameGrid gs gs'" "\<not> done' (nextEntity gs it)"
  shows "handleKindIsNone gs' (handle (nextEntity gs it))
       = handleKindIsNone gs (handle (nextEntity gs it))"
proof -
  obtain p where "handle (nextEntity gs it) = Some (getEntityHandleAtPos gs p)"
    using assms(2) by (auto simp: nextEntity_def Let_def split: if_splits)
  then show ?thesis
    using assms(1)
    by (auto simp: handleKindIsNone_def getEntityHandleAtPos_def Let_def sameGrid_kind
        split: EntityRef.splits if_splits)
qed

lemma nextNonNullEntity_sameGrid:
  "sameGrid gs gs' \<Longrightarrow> nextNonNullEntity gs' it = nextNonNullEntity gs it"
proof (induction gs it rule: nextNonNullEntity.induct)
  case (1 gs it)
  let ?it1 = "nextEntity gs it"
  have n: "nextEntity gs' it = ?it1" using "1.prems" by (rule nextEntity_sameGrid)
  show ?case
  proof (cases "\<not> done' ?it1 \<and> handleKindIsNone gs (handle ?it1)")
    case True
    then have "handleKindIsNone gs' (handle ?it1)"
      using handleKindIsNone_sameGrid [OF "1.prems"] by blast
    then have "nextNonNullEntity gs' it = nextNonNullEntity gs' ?it1"
      using True n by (subst nextNonNullEntity.simps) (simp add: Let_def)
    moreover have "nextNonNullEntity gs it = nextNonNullEntity gs ?it1"
      using True by (subst nextNonNullEntity.simps) (simp add: Let_def)
    ultimately show ?thesis using "1.IH" [OF refl True "1.prems"] by simp
  next
    case False
    then have "\<not> (\<not> done' ?it1 \<and> handleKindIsNone gs' (handle ?it1))"
      using handleKindIsNone_sameGrid [OF "1.prems"] by blast
    then have "nextNonNullEntity gs' it = ?it1"
      using n by (subst nextNonNullEntity.simps) (auto simp: Let_def)
    moreover have "nextNonNullEntity gs it = ?it1"
      using False by (subst nextNonNullEntity.simps) (auto simp: Let_def)
    ultimately show ?thesis by simp
  qed
qed

lemma nextNonNullEntity_handle:
  "\<not> done' (nextNonNullEntity gs it) \<Longrightarrow> \<exists>h. handle (nextNonNullEntity gs it) = Some h"
proof (induction gs it rule: nextNonNullEntity.induct)
  case (1 gs it)
  let ?it1 = "nextEntity gs it"
  show ?case
  proof (cases "\<not> done' ?it1 \<and> handleKindIsNone gs (handle ?it1)")
    case True
    then have "nextNonNullEntity gs it = nextNonNullEntity gs ?it1"
      by (subst nextNonNullEntity.simps) (simp add: Let_def)
    then show ?thesis using "1.IH" [OF refl True] "1.prems" by simp
  next
    case False
    then have "nextNonNullEntity gs it = ?it1"
      by (subst nextNonNullEntity.simps) (auto simp: Let_def)
    then show ?thesis using "1.prems" nextEntity_handle by simp
  qed
qed

lemma updateEntities_run:
  "sameGrid gs gs' \<Longrightarrow>
   updateEntities deltaTime gs' console (nextNonNullEntity gs it)
     = runHandles deltaTime (iterateNonNullEntities gs it) (gs', console)"
proof (induction gs it arbitrary: gs' console rule: iterateNonNullEntities.induct)
  case (1 gs it)
  let ?r = "nextNonNullEntity gs it"
  show ?case
  proof (cases "done' ?r")
    case True
    then have "iterateNonNullEntities gs it = []"
      by (subst iterateNonNullEntities.simps) (simp add: Let_def)
    moreover have "updateEntities deltaTime gs' console ?r = Inr (gs', console)"
      using True by (subst updateEntities.simps) simp
    ultimately show ?thesis by simp
  next
    case False
    show ?thesis
    proof (cases "handle ?r")
      case None
      then show ?thesis
        using False nextNonNullEntity_handle by fastforce
    next
      case (Some h)
      have its: "iterateNonNullEntities gs it = h # iterateNonNullEntities gs ?r"
        using False Some by (subst iterateNonNullEntities.simps) (simp add: Let_def)
      show ?thesis
      proof (cases "updateEntity deltaTime gs' console h")
        case (Inl e)
        then have "updateEntities deltaTime gs' console ?r = Inl e"
          using False Some by (subst updateEntities.simps) simp
        then show ?thesis using its Inl by simp
      next
        case (Inr s)
        obtain gs1 console1 where s: "s = (gs1, console1)" by (cases s)
        have sg: "sameGrid gs gs1"
          using "1.prems" sameGrid_updateEntity Inr s sameGrid_trans by blast
        have "updateEntities deltaTime gs' console ?r
            = updateEntities deltaTime gs1 console1 (nextNonNullEntity gs1 ?r)"
          using False Some Inr s by (subst updateEntities.simps) simp
        also have "\<dots> = updateEntities deltaTime gs1 console1 (nextNonNullEntity gs ?r)"
          using sg by (simp add: nextNonNullEntity_sameGrid)
        also have "\<dots> = runHandles deltaTime (iterateNonNullEntities gs ?r) (gs1, console1)"
          using "1.IH" [OF refl False sg] .
        finally show ?thesis using its Inr s by simp
      qed
    qed
  qed
qed

text \<open>
  What the body of the loop does to the entity of index \<open>k\<close> of a well-formed grid, as a
  function without error cases: \<open>newRate\<close> is the rate that the \<^verbatim>\<open>switch\<close> assigns.
\<close>

definition leftRate :: "GameState \<Rightarrow> nat \<Rightarrow> EntityKind \<Rightarrow> real \<Rightarrow> real" where
  "leftRate gs k condition efficiency =
     (if int k mod x (worldDim gs) \<noteq> 0 \<and> kind (storage gs ! (k - 1)) = condition
      then currentRate (storage gs ! (k - 1)) * efficiency else 0)"

definition newRate :: "GameState \<Rightarrow> nat \<Rightarrow> real" where
  "newRate gs k =
     (case kind (storage gs ! k) of
        Producer \<Rightarrow> leftRate gs k Motor (8 / 10)
      | Motor \<Rightarrow> leftRate gs k Generator (5 / 10)
      | Generator \<Rightarrow>
          (if isCursorOver gs (posOfIndex gs k) \<and> leftButtonDown (cursor gs) then 1 else 0)
      | _ \<Rightarrow> currentRate (storage gs ! k))"

definition diagnosticsOf :: "EntityKind \<Rightarrow> Console" where
  "diagnosticsOf k = (if k \<in> {Generator, Motor, Producer} then [] else [UnknownEntityType k])"

definition visitEntity :: "real \<Rightarrow> nat \<Rightarrow> GameState \<times> Console \<Rightarrow> GameState \<times> Console" where
  "visitEntity deltaTime k s =
     (let gs = fst s; e = storage gs ! k; r = newRate gs k
      in (gs\<lparr>storage := (storage gs)[k := e\<lparr>currentRate := r,
                 cycleProgress := wrapCycleProgress (cycleProgress e)
                                  + deltaTime / referenceCycleDuration gs * r\<rparr>],
             currentNumber := currentNumber gs
               + (if kind e = Producer then r * deltaTime / referenceCycleDuration gs else 0)\<rparr>,
          snd s @ diagnosticsOf (kind e)))"

lemma wellFormedGrid_sameGrid: "sameGrid gs gs' \<Longrightarrow> wellFormedGrid gs \<Longrightarrow> wellFormedGrid gs'"
  by (simp add: wellFormedGrid_def sameGrid_worldDim sameGrid_length)

lemma left_of_index:
  assumes "wellFormedGrid gs" "k < length (storage gs)"
  shows "entity (getEntityHandleAtPos gs \<lparr>x = x (posOfIndex gs k) - 1, y = y (posOfIndex gs k)\<rparr>)
       = (if int k mod x (worldDim gs) \<noteq> 0 then Ref (k - 1) else Null)"
proof (cases "int k mod x (worldDim gs) = 0")
  case True
  then show ?thesis
    by (simp add: getEntityHandleAtPos_def posIsInBounds_def posOfIndex_def)
next
  case False
  let ?w = "x (worldDim gs)"
  let ?p = "\<lparr>x = x (posOfIndex gs k) - 1, y = y (posOfIndex gs k)\<rparr>"
  have w: "0 < ?w" using assms(1) by (simp add: wellFormedGrid_def)
  then have "0 \<le> int k mod ?w" by simp 
  then have m: "1 \<le> int k mod ?w" using False by linarith
  have b: "posIsInBounds (posOfIndex gs k) (worldDim gs)"
    using assms by (rule posOfIndex_inBounds)
  then have b': "posIsInBounds ?p (worldDim gs)"
    using m by (simp add: posIsInBounds_def posOfIndex_def)
  have "y ?p * ?w + x ?p = int k - 1"
    using posOfIndex_inBounds(2) [OF assms] by simp
  moreover have "1 \<le> k" using m by (cases k) simp_all
  ultimately have "nat (y ?p * ?w + x ?p) = k - 1" by linarith
  then show ?thesis
    using getEntityHandleAtPos_inBounds(1) [OF assms(1) b'] False
    by (simp add: handleOfIndex_def)
qed

lemma startWorkingConditionally_index:
  assumes "wellFormedGrid gs" "k < length (storage gs)"
  shows "startWorkingConditionally gs (handleOfIndex gs k) condition efficiency
       = Inr (setCurrentRate gs k (leftRate gs k condition efficiency))"
proof -
  let ?gs1 = "setCurrentRate gs k 0"
  have sg: "sameGrid gs ?gs1" by (rule sameGrid_setCurrentRate)
  have wf1: "wellFormedGrid ?gs1" using sg assms(1) by (rule wellFormedGrid_sameGrid)
  have k1: "k < length (storage ?gs1)" using assms(2) sg by (simp add: sameGrid_length)
  have p: "posOfIndex ?gs1 k = posOfIndex gs k"
    by (simp add: posOfIndex_def sameGrid_worldDim [OF sg])
  have l: "entity (getEntityHandleAtPos ?gs1
             \<lparr>x = x (posOfIndex gs k) - 1, y = y (posOfIndex gs k)\<rparr>)
       = (if int k mod x (worldDim gs) \<noteq> 0 then Ref (k - 1) else Null)"
    using left_of_index [OF wf1 k1] by (simp add: p sameGrid_worldDim [OF sg])
  have twice: "setCurrentRate ?gs1 k r = setCurrentRate gs k r" for r
    using assms(2) by (simp add: setCurrentRate_def)
  show ?thesis
  proof (cases "int k mod x (worldDim gs) \<noteq> 0")
    case True
    then have "k \<noteq> 0" by (cases k) simp_all
    then have "storage ?gs1 ! (k - 1) = storage gs ! (k - 1)"
      by (simp add: setCurrentRate_def)
    then show ?thesis
      using True l
      by (simp add: startWorkingConditionally_def handleOfIndex_def Let_def leftRate_def twice)
  next
    case False
    then show ?thesis
      using l by (simp add: startWorkingConditionally_def handleOfIndex_def Let_def leftRate_def)
  qed
qed

lemma applyRateRule_index:
  assumes "wellFormedGrid gs" "k < length (storage gs)"
  shows "applyRateRule deltaTime gs console (handleOfIndex gs k) k
       = Inr ((setCurrentRate gs k (newRate gs k))
                \<lparr>currentNumber := currentNumber gs
                   + (if kind (storage gs ! k) = Producer
                      then newRate gs k * deltaTime / referenceCycleDuration gs else 0)\<rparr>,
              console @ diagnosticsOf (kind (storage gs ! k)))"
proof (cases "kind (storage gs ! k)")
  case NoneKind
  then show ?thesis
    by (simp add: applyRateRule_def newRate_def diagnosticsOf_def setCurrentRate_def)
next
  case Generator
  then show ?thesis
    by (simp add: applyRateRule_def newRate_def diagnosticsOf_def handleOfIndex_def
        setCurrentRate_def)
next
  case Motor
  then show ?thesis
    using startWorkingConditionally_index [OF assms]
    by (simp add: applyRateRule_def newRate_def diagnosticsOf_def setCurrentRate_def)
next
  case Producer
  then show ?thesis
    using startWorkingConditionally_index [OF assms] assms(2)
    by (simp add: applyRateRule_def newRate_def diagnosticsOf_def setCurrentRate_def)
next
  case (Unknown n)
  then show ?thesis
    by (simp add: applyRateRule_def newRate_def diagnosticsOf_def setCurrentRate_def)
qed

lemma updateEntity_index:
  assumes "wellFormedGrid gs" "k < length (storage gs)"
  shows "updateEntity deltaTime gs console (handleOfIndex gs k)
       = Inr (visitEntity deltaTime k (gs, console))"
proof -
  have e: "entity (handleOfIndex gs k) = Ref k" by (simp add: handleOfIndex_def)
  show ?thesis
    unfolding updateEntity_def e
    using assms(2)
    by (simp add: applyRateRule_index [OF assms] visitEntity_def Let_def
        setCurrentRate_def setCycleProgress_def)
qed

definition occupiedIndices :: "GameState \<Rightarrow> nat \<Rightarrow> nat list" where
  "occupiedIndices gs m = filter (\<lambda>k. kind (storage gs ! k) \<noteq> NoneKind) [0..<m]"

lemma sameGrid_fields:
  assumes "sameGrid gs gs'"
  shows "worldDim gs' = worldDim gs" "cursor gs' = cursor gs"
    "referenceCycleDuration gs' = referenceCycleDuration gs" "cellDimPx gs' = cellDimPx gs"
    "worldMargins gs' = worldMargins gs" "lastTimestamp gs' = lastTimestamp gs"
    "gridCellBorderWidthPx gs' = gridCellBorderWidthPx gs"
proof -
  have "gs' = gs\<lparr>storage := storage gs', currentNumber := currentNumber gs'\<rparr>"
    using assms by (simp add: sameGrid_def)
  then obtain st n where e: "gs' = gs\<lparr>storage := st, currentNumber := n\<rparr>" by blast
  show "worldDim gs' = worldDim gs" "cursor gs' = cursor gs"
    "referenceCycleDuration gs' = referenceCycleDuration gs" "cellDimPx gs' = cellDimPx gs"
    "worldMargins gs' = worldMargins gs" "lastTimestamp gs' = lastTimestamp gs"
    "gridCellBorderWidthPx gs' = gridCellBorderWidthPx gs"
    by (simp_all add: e)
qed

lemma posOfIndex_sameGrid: "sameGrid gs gs' \<Longrightarrow> posOfIndex gs' k = posOfIndex gs k"
  by (simp add: posOfIndex_def sameGrid_fields)

lemma handleOfIndex_sameGrid: "sameGrid gs gs' \<Longrightarrow> handleOfIndex gs' k = handleOfIndex gs k"
  by (simp add: handleOfIndex_def posOfIndex_sameGrid)

lemma isCursorOver_sameGrid: "sameGrid gs gs' \<Longrightarrow> isCursorOver gs' p = isCursorOver gs p"
  by (simp add: isCursorOver_def sameGrid_fields)

lemma sameGrid_visitEntity:
  assumes "wellFormedGrid gs" "k < length (storage gs)"
  shows "sameGrid gs (fst (visitEntity deltaTime k (gs, console)))"
  using sameGrid_updateEntity [of deltaTime gs console "handleOfIndex gs k"]
    updateEntity_index [OF assms, of deltaTime console]
  by (cases "visitEntity deltaTime k (gs, console)") simp

lemma runHandles_index:
  assumes "wellFormedGrid gs0"
  shows "sameGrid gs0 gs \<Longrightarrow> \<forall>k \<in> set ks. k < length (storage gs0) \<Longrightarrow>
    runHandles deltaTime (map (handleOfIndex gs0) ks) (gs, console)
      = Inr (fold (visitEntity deltaTime) ks (gs, console))"
proof (induction ks arbitrary: gs console)
  case Nil
  show ?case by simp
next
  case (Cons k ks)
  have wf: "wellFormedGrid gs" using Cons.prems(1) assms by (rule wellFormedGrid_sameGrid)
  have k: "k < length (storage gs)"
    using Cons.prems by (simp add: sameGrid_length)
  obtain gs1 console1 where v: "visitEntity deltaTime k (gs, console) = (gs1, console1)"
    by (cases "visitEntity deltaTime k (gs, console)")
  have "sameGrid gs gs1" using sameGrid_visitEntity [OF wf k, of deltaTime console] v by simp
  then have sg: "sameGrid gs0 gs1" using Cons.prems(1) sameGrid_trans by blast
  have "updateEntity deltaTime gs console (handleOfIndex gs0 k) = Inr (gs1, console1)"
    using updateEntity_index [OF wf k, of deltaTime console] v
    by (simp add: handleOfIndex_sameGrid [OF Cons.prems(1)])
  then show ?case
    using Cons.IH [OF sg, of console1] Cons.prems(2) v by simp
qed

lemma gameUpdateAndRender_fold:
  assumes "wellFormedGrid gs"
  shows "gameUpdateAndRender gs deltaTime
       = Inr (fold (visitEntity deltaTime) (occupiedIndices gs (length (storage gs))) (gs, []))"
proof -
  have "gameUpdateAndRender gs deltaTime
      = runHandles deltaTime (iterateNonNullEntities gs beginEntityIteration) (gs, [])"
    unfolding gameUpdateAndRender_def using sameGrid_refl by (rule updateEntities_run)
  also have "\<dots> = runHandles deltaTime
      (map (handleOfIndex gs) (occupiedIndices gs (length (storage gs)))) (gs, [])"
    using assms by (simp add: iterateNonNullEntities_index occupiedIndices_def)
  also have "\<dots> = Inr (fold (visitEntity deltaTime) (occupiedIndices gs (length (storage gs))) (gs, []))"
    using assms sameGrid_refl by (rule runHandles_index) (simp add: occupiedIndices_def)
  finally show ?thesis .
qed

text \<open>
  The invariant of the loop after the first \<open>m\<close> cells: the entities from \<open>m\<close> on are
  untouched, and each earlier one has the rate of its rule (read from the state as it is
  now, where its left neighbour has its rate of this pass) and its progress wrapped and
  advanced.
\<close>

definition producerOutput :: "real \<Rightarrow> GameState \<Rightarrow> nat \<Rightarrow> real" where
  "producerOutput deltaTime gs m =
     (\<Sum>k\<leftarrow>filter (\<lambda>k. kind (storage gs ! k) = Producer) [0..<m].
        currentRate (storage gs ! k) * deltaTime / referenceCycleDuration gs)"

definition unknownDiagnostics :: "GameState \<Rightarrow> nat \<Rightarrow> Console" where
  "unknownDiagnostics gs m =
     map (\<lambda>k. UnknownEntityType (kind (storage gs ! k)))
       (filter (\<lambda>k. kind (storage gs ! k) \<notin> {NoneKind, Generator, Motor, Producer}) [0..<m])"

definition entityDone :: "real \<Rightarrow> GameState \<Rightarrow> GameState \<Rightarrow> nat \<Rightarrow> bool" where
  "entityDone deltaTime gs gs' k \<longleftrightarrow>
     (if kind (storage gs ! k) = NoneKind then storage gs' ! k = storage gs ! k
      else currentRate (storage gs' ! k) = newRate gs' k
         \<and> (kind (storage gs ! k) \<notin> {Generator, Motor, Producer}
              \<longrightarrow> currentRate (storage gs' ! k) = currentRate (storage gs ! k))
         \<and> cycleProgress (storage gs' ! k)
             = wrapCycleProgress (cycleProgress (storage gs ! k))
               + deltaTime / referenceCycleDuration gs * currentRate (storage gs' ! k))"

definition tickInv :: "real \<Rightarrow> GameState \<Rightarrow> nat \<Rightarrow> GameState \<times> Console \<Rightarrow> bool" where
  "tickInv deltaTime gs m s \<longleftrightarrow>
     sameGrid gs (fst s) \<and>
     (\<forall>k < length (storage gs). m \<le> k \<longrightarrow> storage (fst s) ! k = storage gs ! k) \<and>
     (\<forall>k < m. entityDone deltaTime gs (fst s) k) \<and>
     currentNumber (fst s) = currentNumber gs + producerOutput deltaTime (fst s) m \<and>
     snd s = unknownDiagnostics gs m"

lemma leftRate_cong:
  assumes "sameGrid a b" "0 < k \<longrightarrow> storage b ! (k - 1) = storage a ! (k - 1)"
  shows "leftRate b k condition efficiency = leftRate a k condition efficiency"
proof (cases "int k mod x (worldDim a) \<noteq> 0")
  case True
  then have "0 < k" by (cases k) simp_all
  then show ?thesis using assms by (simp add: leftRate_def sameGrid_fields)
next
  case False
  then show ?thesis using assms(1) by (simp add: leftRate_def sameGrid_fields)
qed

lemma newRate_cong:
  assumes "sameGrid a b" "storage b ! k = storage a ! k"
    "0 < k \<longrightarrow> storage b ! (k - 1) = storage a ! (k - 1)"
  shows "newRate b k = newRate a k"
  using assms(2) leftRate_cong [OF assms(1,3)]
  by (simp add: newRate_def isCursorOver_sameGrid [OF assms(1)] posOfIndex_sameGrid [OF assms(1)]
      sameGrid_fields [OF assms(1)] split: EntityKind.splits)

lemma storage_visitEntity:
  "storage (fst (visitEntity deltaTime m s))
     = (storage (fst s))[m := (storage (fst s) ! m)
          \<lparr>currentRate := newRate (fst s) m,
           cycleProgress := wrapCycleProgress (cycleProgress (storage (fst s) ! m))
             + deltaTime / referenceCycleDuration (fst s) * newRate (fst s) m\<rparr>]"
  by (simp add: visitEntity_def Let_def)

lemma currentNumber_visitEntity:
  "currentNumber (fst (visitEntity deltaTime m s))
     = currentNumber (fst s)
       + (if kind (storage (fst s) ! m) = Producer
          then newRate (fst s) m * deltaTime / referenceCycleDuration (fst s) else 0)"
  by (simp add: visitEntity_def Let_def)

lemma snd_visitEntity:
  "snd (visitEntity deltaTime m s) = snd s @ diagnosticsOf (kind (storage (fst s) ! m))"
  by (simp add: visitEntity_def Let_def)

lemma newRate_visitEntity:
  assumes "wellFormedGrid (fst s)" "m < length (storage (fst s))"
  shows "newRate (fst (visitEntity deltaTime m s)) m = newRate (fst s) m"
proof -
  let ?a = "fst s" and ?b = "fst (visitEntity deltaTime m s)"
  have sg: "sameGrid ?a ?b"
    using sameGrid_visitEntity [OF assms, of deltaTime "snd s"] by simp
  have l: "leftRate ?b m c e = leftRate ?a m c e" for c e
    using sg by (rule leftRate_cong) (simp add: storage_visitEntity)
  have k: "kind (storage ?b ! m) = kind (storage ?a ! m)"
    using sg assms(2) by (rule sameGrid_kind)
  have r: "currentRate (storage ?b ! m) = newRate ?a m"
    using assms(2) by (simp add: storage_visitEntity)
  show ?thesis
  proof (cases "kind (storage ?a ! m) \<in> {Generator, Motor, Producer}")
    case True
    then show ?thesis
      using k l by (auto simp: newRate_def isCursorOver_sameGrid [OF sg]
          posOfIndex_sameGrid [OF sg] sameGrid_fields [OF sg])
  next
    case False
    then have "newRate ?a m = currentRate (storage ?a ! m)"
      by (cases "kind (storage ?a ! m)") (simp_all add: newRate_def)
    moreover have "newRate ?b m = currentRate (storage ?b ! m)"
      using False k by (cases "kind (storage ?a ! m)") (simp_all add: newRate_def)
    ultimately show ?thesis using r by simp
  qed
qed

lemma producerOutput_cong:
  assumes "\<forall>k < m. storage b ! k = storage a ! k"
    "referenceCycleDuration b = referenceCycleDuration a"
  shows "producerOutput deltaTime b m = producerOutput deltaTime a m"
proof -
  have f: "filter (\<lambda>k. kind (storage b ! k) = Producer) [0..<m]
      = filter (\<lambda>k. kind (storage a ! k) = Producer) [0..<m]"
    using assms(1) by (intro filter_cong) simp_all
  have g: "map (\<lambda>k. currentRate (storage b ! k) * deltaTime / referenceCycleDuration b)
        (filter (\<lambda>k. kind (storage a ! k) = Producer) [0..<m])
      = map (\<lambda>k. currentRate (storage a ! k) * deltaTime / referenceCycleDuration a)
        (filter (\<lambda>k. kind (storage a ! k) = Producer) [0..<m])"
    using assms by (intro map_cong) simp_all
  show ?thesis unfolding producerOutput_def f g by (rule refl)
qed

lemma producerOutput_Suc:
  "producerOutput deltaTime gs (Suc m)
     = producerOutput deltaTime gs m
       + (if kind (storage gs ! m) = Producer
          then currentRate (storage gs ! m) * deltaTime / referenceCycleDuration gs else 0)"
  by (simp add: producerOutput_def)

lemma unknownDiagnostics_Suc:
  "unknownDiagnostics gs (Suc m)
     = unknownDiagnostics gs m
       @ (if kind (storage gs ! m) \<notin> {NoneKind, Generator, Motor, Producer}
          then [UnknownEntityType (kind (storage gs ! m))] else [])"
  by (simp add: unknownDiagnostics_def)

lemma entityDone_cong:
  assumes "sameGrid a b" "storage b ! k = storage a ! k"
    "0 < k \<longrightarrow> storage b ! (k - 1) = storage a ! (k - 1)"
    "entityDone deltaTime gs a k"
  shows "entityDone deltaTime gs b k"
  using assms(4) newRate_cong [OF assms(1,2,3)] assms(2)
  by (auto simp: entityDone_def split: if_splits)

lemma tickInv_step_empty:
  assumes "tickInv deltaTime gs m s" "m < length (storage gs)"
    "kind (storage gs ! m) = NoneKind"
  shows "tickInv deltaTime gs (Suc m) s"
proof -
  have u: "storage (fst s) ! m = storage gs ! m"
    using assms(1,2) by (simp add: tickInv_def)
  then have "entityDone deltaTime gs (fst s) m"
    using assms(3) by (simp add: entityDone_def)
  then have "\<forall>k < Suc m. entityDone deltaTime gs (fst s) k"
    using assms(1) by (simp add: tickInv_def less_Suc_eq)
  moreover have "producerOutput deltaTime (fst s) (Suc m) = producerOutput deltaTime (fst s) m"
    using u assms(3) by (simp add: producerOutput_Suc)
  moreover have "unknownDiagnostics gs (Suc m) = unknownDiagnostics gs m"
    using assms(3) by (simp add: unknownDiagnostics_Suc)
  ultimately show ?thesis
    using assms(1) by (simp add: tickInv_def)
qed

lemma tickInv_step_occupied:
  assumes wf: "wellFormedGrid gs" and m: "m < length (storage gs)"
    and inv: "tickInv deltaTime gs m s" and occ: "kind (storage gs ! m) \<noteq> NoneKind"
  shows "tickInv deltaTime gs (Suc m) (visitEntity deltaTime m s)"
proof -
  let ?a = "fst s" and ?b = "fst (visitEntity deltaTime m s)"
  have sga: "sameGrid gs ?a" using inv by (simp add: tickInv_def)
  have wfa: "wellFormedGrid ?a" using sga wf by (rule wellFormedGrid_sameGrid)
  have ma: "m < length (storage ?a)" using m sga by (simp add: sameGrid_length)
  have sgab: "sameGrid ?a ?b"
    using sameGrid_visitEntity [OF wfa ma, of deltaTime "snd s"] by simp
  have sgb: "sameGrid gs ?b" using sga sgab by (rule sameGrid_trans)
  have am: "storage ?a ! m = storage gs ! m"
    using inv m by (simp add: tickInv_def)
  have other: "storage ?b ! k = storage ?a ! k" if "k \<noteq> m" for k
    using that by (simp add: storage_visitEntity)
  have bm: "storage ?b ! m = (storage gs ! m)
          \<lparr>currentRate := newRate ?a m,
           cycleProgress := wrapCycleProgress (cycleProgress (storage gs ! m))
             + deltaTime / referenceCycleDuration gs * newRate ?a m\<rparr>"
    using ma am by (simp add: storage_visitEntity sameGrid_fields [OF sga])
  have nr: "newRate ?b m = newRate ?a m"
    using wfa ma by (rule newRate_visitEntity)
  have c2: "\<forall>k < length (storage gs). Suc m \<le> k \<longrightarrow> storage ?b ! k = storage gs ! k"
    using inv other by (simp add: tickInv_def)
  have dm: "entityDone deltaTime gs ?b m"
  proof -
    have "kind (storage gs ! m) \<notin> {Generator, Motor, Producer}
        \<Longrightarrow> newRate ?a m = currentRate (storage gs ! m)"
      using am by (cases "kind (storage gs ! m)") (simp_all add: newRate_def)
    then show ?thesis
      using occ bm nr by (auto simp: entityDone_def)
  qed
  have c3: "\<forall>k < Suc m. entityDone deltaTime gs ?b k"
  proof (intro allI impI)
    fix k assume "k < Suc m"
    show "entityDone deltaTime gs ?b k"
    proof (cases "k = m")
      case True
      then show ?thesis using dm by simp
    next
      case False
      then have km: "k < m" using \<open>k < Suc m\<close> by simp
      then have "entityDone deltaTime gs ?a k" using inv by (simp add: tickInv_def)
      moreover have "storage ?b ! k = storage ?a ! k" using km by (simp add: other)
      moreover have "0 < k \<longrightarrow> storage ?b ! (k - 1) = storage ?a ! (k - 1)"
        using km by (simp add: other)
      ultimately show ?thesis using sgab entityDone_cong by blast
    qed
  qed
  have po: "producerOutput deltaTime ?b m = producerOutput deltaTime ?a m"
    by (rule producerOutput_cong) (simp_all add: other sameGrid_fields [OF sgab])
  have kb: "kind (storage ?b ! m) = kind (storage gs ! m)"
    using sgb m by (rule sameGrid_kind)
  have "currentRate (storage ?b ! m) = newRate ?a m" using bm by simp
  then have c4: "currentNumber ?b = currentNumber gs + producerOutput deltaTime ?b (Suc m)"
    using inv am kb po
    by (simp add: tickInv_def currentNumber_visitEntity producerOutput_Suc
        sameGrid_fields [OF sgab])
  have c5: "snd (visitEntity deltaTime m s) = unknownDiagnostics gs (Suc m)"
    using inv am occ
    by (simp add: tickInv_def snd_visitEntity unknownDiagnostics_Suc diagnosticsOf_def)
  show ?thesis
    unfolding tickInv_def using sgb c2 c3 c4 c5 by blast
qed

lemma occupiedIndices_Suc:
  "occupiedIndices gs (Suc m)
     = occupiedIndices gs m @ (if kind (storage gs ! m) \<noteq> NoneKind then [m] else [])"
  by (simp add: occupiedIndices_def)

lemma tickInv_prefix:
  assumes "wellFormedGrid gs"
  shows "m \<le> length (storage gs) \<Longrightarrow>
    tickInv deltaTime gs m (fold (visitEntity deltaTime) (occupiedIndices gs m) (gs, []))"
proof (induction m)
  case 0
  show ?case
    by (simp add: tickInv_def occupiedIndices_def sameGrid_refl producerOutput_def
        unknownDiagnostics_def)
next
  case (Suc m)
  then have inv: "tickInv deltaTime gs m
      (fold (visitEntity deltaTime) (occupiedIndices gs m) (gs, []))" and m: "m < length (storage gs)"
    by simp_all
  show ?case
  proof (cases "kind (storage gs ! m) = NoneKind")
    case True
    then show ?thesis
      using tickInv_step_empty [OF inv m] by (simp add: occupiedIndices_Suc)
  next
    case False
    then show ?thesis
      using tickInv_step_occupied [OF assms m inv] by (simp add: occupiedIndices_Suc)
  qed
qed

lemma gameUpdateAndRender_result:
  assumes "wellFormedGrid gs"
  shows "\<exists>gs' console. gameUpdateAndRender gs deltaTime = Inr (gs', console)
           \<and> tickInv deltaTime gs (length (storage gs)) (gs', console)"
proof -
  obtain gs' console where
    r: "fold (visitEntity deltaTime) (occupiedIndices gs (length (storage gs))) (gs, []) = (gs', console)"
    by (cases "fold (visitEntity deltaTime) (occupiedIndices gs (length (storage gs))) (gs, [])")
  then have "tickInv deltaTime gs (length (storage gs)) (gs', console)"
    using tickInv_prefix [OF assms, of "length (storage gs)" deltaTime] by simp
  then show ?thesis
    using gameUpdateAndRender_fold [OF assms, of deltaTime] r by simp
qed

section \<open>Properties of the update pass\<close>

lemma wrapCycleProgress_closed:
  "wrapCycleProgress c = (if 1 \<le> c then c - of_int \<lfloor>c\<rfloor> else c)"
proof (induction c rule: wrapCycleProgress.induct)
  case (1 c)
  show ?case
  proof (cases "1 \<le> c")
    case True
    then have "wrapCycleProgress c = wrapCycleProgress (c - 1)"
      by (subst wrapCycleProgress.simps) simp
    also have "\<dots> = (if 1 \<le> c - 1 then c - 1 - of_int \<lfloor>c - 1\<rfloor> else c - 1)"
      using "1.IH" [OF True] .
    also have "\<dots> = c - of_int \<lfloor>c\<rfloor>"
    proof (cases "1 \<le> c - 1")
      case True
      then show ?thesis by simp
    next
      case False
      then have "\<lfloor>c\<rfloor> = 1" using \<open>1 \<le> c\<close> by linarith
      then show ?thesis using False by simp
    qed
    finally show ?thesis using True by simp
  next
    case False
    then show ?thesis by (subst wrapCycleProgress.simps) simp
  qed
qed

lemma wrapCycleProgress_less: "wrapCycleProgress c < 1"
  unfolding wrapCycleProgress_closed by (simp; linarith)

lemma wrapCycleProgress_nonneg: "0 \<le> c \<Longrightarrow> 0 \<le> wrapCycleProgress c"
  unfolding wrapCycleProgress_closed by (simp; linarith)

lemma tick_facts:
  assumes "wellFormedGrid gs"
  obtains gs' console where
    "gameUpdateAndRender gs deltaTime = Inr (gs', console)"
    "sameGrid gs gs'"
    "\<And>k. k < length (storage gs) \<Longrightarrow> entityDone deltaTime gs gs' k"
    "currentNumber gs' = currentNumber gs + producerOutput deltaTime gs' (length (storage gs))"
    "console = unknownDiagnostics gs (length (storage gs))"
  using gameUpdateAndRender_result [OF assms, of deltaTime]
  unfolding tickInv_def by auto

text \<open>
  C10. One update pass on a well-formed grid changes nothing but the storage and
  \<^verbatim>\<open>currentNumber\<close>: the dimensions, the cursor, \<^verbatim>\<open>referenceCycleDuration\<close> and the other
  constants are those of the state before. The storage keeps its length, every entity
  keeps its kind (so only its \<^verbatim>\<open>currentRate\<close> and \<^verbatim>\<open>cycleProgress\<close> can differ), and every
  entity of kind \<^verbatim>\<open>None\<close> is left as it was.
\<close>

theorem tick_frame:
  assumes "wellFormedGrid gs"
  shows "\<exists>gs' console. gameUpdateAndRender gs deltaTime = Inr (gs', console)
      \<and> gs' = gs\<lparr>storage := storage gs', currentNumber := currentNumber gs'\<rparr>
      \<and> length (storage gs') = length (storage gs)
      \<and> (\<forall>k < length (storage gs).
            kind (storage gs' ! k) = kind (storage gs ! k)
            \<and> (kind (storage gs ! k) = NoneKind \<longrightarrow> storage gs' ! k = storage gs ! k))"
proof -
  obtain gs' console where r: "gameUpdateAndRender gs deltaTime = Inr (gs', console)"
    and sg: "sameGrid gs gs'"
    and d: "\<And>k. k < length (storage gs) \<Longrightarrow> entityDone deltaTime gs gs' k"
    using tick_facts [OF assms] by blast
  have "gs' = gs\<lparr>storage := storage gs', currentNumber := currentNumber gs'\<rparr>"
    using sg by (simp add: sameGrid_def)
  moreover have "length (storage gs') = length (storage gs)"
    using sg by (rule sameGrid_length)
  moreover have "kind (storage gs' ! k) = kind (storage gs ! k)
      \<and> (kind (storage gs ! k) = NoneKind \<longrightarrow> storage gs' ! k = storage gs ! k)"
    if "k < length (storage gs)" for k
    using sameGrid_kind [OF sg that] d [OF that] by (simp add: entityDone_def)
  ultimately show ?thesis using r by blast
qed

text \<open>
  C4. One update pass (well-formed grid, positive \<^verbatim>\<open>referenceCycleDuration\<close>) adds to
  \<^verbatim>\<open>currentNumber\<close> exactly one term per entity of kind Producer, the rate that this pass
  gave the producer times \<open>deltaTime / referenceCycleDuration\<close>, and nothing for an entity
  of another kind. So with a non-negative \<open>deltaTime\<close> and non-negative producer rates the
  total does not decrease.
\<close>

theorem ledger_update:
  assumes "wellFormedGrid gs" and "0 < referenceCycleDuration gs"
  shows "\<exists>gs' console. gameUpdateAndRender gs deltaTime = Inr (gs', console)
      \<and> currentNumber gs'
          = currentNumber gs
            + (\<Sum>k\<leftarrow>filter (\<lambda>k. kind (storage gs ! k) = Producer) [0..<length (storage gs)].
                 currentRate (storage gs' ! k) * deltaTime / referenceCycleDuration gs)
      \<and> (0 \<le> deltaTime
           \<and> (\<forall>k < length (storage gs). kind (storage gs ! k) = Producer
                  \<longrightarrow> 0 \<le> currentRate (storage gs' ! k))
           \<longrightarrow> currentNumber gs \<le> currentNumber gs')"
proof -
  let ?n = "length (storage gs)"
  let ?ps = "filter (\<lambda>k. kind (storage gs ! k) = Producer) [0..<?n]"
  obtain gs' console where r: "gameUpdateAndRender gs deltaTime = Inr (gs', console)"
    and sg: "sameGrid gs gs'"
    and n: "currentNumber gs' = currentNumber gs + producerOutput deltaTime gs' ?n"
    using tick_facts [OF assms(1)] by blast
  have "filter (\<lambda>k. kind (storage gs' ! k) = Producer) [0..<?n] = ?ps"
    using sameGrid_kind [OF sg] by (intro filter_cong) simp_all
  then have po: "producerOutput deltaTime gs' ?n
      = (\<Sum>k\<leftarrow>?ps. currentRate (storage gs' ! k) * deltaTime / referenceCycleDuration gs)"
    by (simp add: producerOutput_def sameGrid_fields [OF sg])
  have "0 \<le> (\<Sum>k\<leftarrow>?ps. currentRate (storage gs' ! k) * deltaTime / referenceCycleDuration gs)"
    if "0 \<le> deltaTime"
      and "\<forall>k < ?n. kind (storage gs ! k) = Producer \<longrightarrow> 0 \<le> currentRate (storage gs' ! k)"
    using that assms(2) by (intro sum_list_nonneg) auto
  then show ?thesis using r n po by auto
qed

text \<open>
  C8. If an entity of a well-formed grid has a kind that is none of the declared ones, the
  update pass still returns a state. The console gets one diagnostic for each such entity,
  in traversal order, among them the one for this entity; the entity keeps the rate it
  had. The pass goes on with the other entities: every generator gets its rate from the
  cursor, and (with a nonzero \<^verbatim>\<open>referenceCycleDuration\<close>) every occupied entity, this one
  included, gets its progress wrapped and advanced.
\<close>

theorem unknown_kind_diagnostic:
  assumes "wellFormedGrid gs" and "k < length (storage gs)"
    and "kind (storage gs ! k) = Unknown n"
  shows "\<exists>gs' console. gameUpdateAndRender gs deltaTime = Inr (gs', console)
      \<and> console = map (\<lambda>j. UnknownEntityType (kind (storage gs ! j)))
            (filter (\<lambda>j. kind (storage gs ! j) \<notin> {NoneKind, Generator, Motor, Producer})
               [0..<length (storage gs)])
      \<and> UnknownEntityType (Unknown n) \<in> set console
      \<and> currentRate (storage gs' ! k) = currentRate (storage gs ! k)
      \<and> (\<forall>j < length (storage gs). kind (storage gs ! j) = Generator \<longrightarrow>
            currentRate (storage gs' ! j)
              = (if isCursorOver gs (posOfIndex gs j) \<and> leftButtonDown (cursor gs) then 1 else 0))
      \<and> (referenceCycleDuration gs \<noteq> 0 \<longrightarrow>
           (\<forall>j < length (storage gs). kind (storage gs ! j) \<noteq> NoneKind \<longrightarrow>
              cycleProgress (storage gs' ! j)
                = wrapCycleProgress (cycleProgress (storage gs ! j))
                  + deltaTime / referenceCycleDuration gs * currentRate (storage gs' ! j)))"
proof -
  obtain gs' console where r: "gameUpdateAndRender gs deltaTime = Inr (gs', console)"
    and sg: "sameGrid gs gs'"
    and d: "\<And>k. k < length (storage gs) \<Longrightarrow> entityDone deltaTime gs gs' k"
    and c: "console = unknownDiagnostics gs (length (storage gs))"
    using tick_facts [OF assms(1)] by blast
  have c1: "console = map (\<lambda>j. UnknownEntityType (kind (storage gs ! j)))
            (filter (\<lambda>j. kind (storage gs ! j) \<notin> {NoneKind, Generator, Motor, Producer})
               [0..<length (storage gs)])"
    using c by (simp add: unknownDiagnostics_def)
  have "k \<in> set (filter (\<lambda>j. kind (storage gs ! j) \<notin> {NoneKind, Generator, Motor, Producer})
               [0..<length (storage gs)])"
    using assms(2,3) by simp
  then have c2: "UnknownEntityType (Unknown n) \<in> set console"
    unfolding c1 set_map using assms(3) by (metis (no_types, lifting) image_eqI)
  have c3: "currentRate (storage gs' ! k) = currentRate (storage gs ! k)"
    using d [OF assms(2)] assms(3) by (simp add: entityDone_def)
  have c4: "currentRate (storage gs' ! j)
      = (if isCursorOver gs (posOfIndex gs j) \<and> leftButtonDown (cursor gs) then 1 else 0)"
    if "j < length (storage gs)" "kind (storage gs ! j) = Generator" for j
  proof -
    have "kind (storage gs' ! j) = Generator"
      using sameGrid_kind [OF sg that(1)] that(2) by simp
    then have "newRate gs' j
        = (if isCursorOver gs (posOfIndex gs j) \<and> leftButtonDown (cursor gs) then 1 else 0)"
      by (simp add: newRate_def isCursorOver_sameGrid [OF sg] posOfIndex_sameGrid [OF sg]
          sameGrid_fields [OF sg])
    then show ?thesis using d [OF that(1)] that(2) by (simp add: entityDone_def)
  qed
  have c5: "cycleProgress (storage gs' ! j)
      = wrapCycleProgress (cycleProgress (storage gs ! j))
        + deltaTime / referenceCycleDuration gs * currentRate (storage gs' ! j)"
    if "j < length (storage gs)" "kind (storage gs ! j) \<noteq> NoneKind" for j
    using d [OF that(1)] that(2) by (simp add: entityDone_def)
  show ?thesis using r c1 c2 c3 c4 c5 by blast
qed

text \<open>
  C1. On a well-formed grid with a generator at \<open>(a, b)\<close>, a motor at \<open>(a + 1, b)\<close> and
  a producer at \<open>(a + 2, b)\<close>, one update pass leaves the generator with rate \<open>1\<close> if the
  cursor is over its cell with the button held and \<open>0\<close> otherwise, the motor with \<open>0.5\<close>
  times and the producer with \<open>0.4\<close> times that rate of the generator: the rates of this
  pass, whatever the rates were before.
\<close>

theorem rate_cascade:
  assumes "wellFormedGrid gs"
    and "0 \<le> a" and "a + 2 < x (worldDim gs)" and "0 \<le> b" and "b < y (worldDim gs)"
    and "g = nat (b * x (worldDim gs) + a)"
    and "kind (storage gs ! g) = Generator"
    and "kind (storage gs ! (g + 1)) = Motor"
    and "kind (storage gs ! (g + 2)) = Producer"
  shows "\<exists>gs' console. gameUpdateAndRender gs deltaTime = Inr (gs', console)
      \<and> entity (getEntityHandleAtPos gs \<lparr>x = a, y = b\<rparr>) = Ref g
      \<and> entity (getEntityHandleAtPos gs \<lparr>x = a + 1, y = b\<rparr>) = Ref (g + 1)
      \<and> entity (getEntityHandleAtPos gs \<lparr>x = a + 2, y = b\<rparr>) = Ref (g + 2)
      \<and> currentRate (storage gs' ! g)
          = (if isCursorOver gs \<lparr>x = a, y = b\<rparr> \<and> leftButtonDown (cursor gs) then 1 else 0)
      \<and> currentRate (storage gs' ! (g + 1)) = 5 / 10 * currentRate (storage gs' ! g)
      \<and> currentRate (storage gs' ! (g + 2)) = 4 / 10 * currentRate (storage gs' ! g)"
proof -
  let ?w = "x (worldDim gs)" and ?n = "length (storage gs)"
  obtain gs' console where r: "gameUpdateAndRender gs deltaTime = Inr (gs', console)"
    and sg: "sameGrid gs gs'"
    and d: "\<And>k. k < ?n \<Longrightarrow> entityDone deltaTime gs gs' k"
    using tick_facts [OF assms(1)] by blast
  have ig: "int g = b * ?w + a"
    using assms(2,3,4,6) by simp
  have h: "entity (getEntityHandleAtPos gs \<lparr>x = a + int i, y = b\<rparr>) = Ref (g + i)
      \<and> g + i < ?n \<and> int (g + i) mod ?w = a + int i \<and> int (g + i) div ?w = b"
    if "i \<le> 2" for i :: nat
  proof -
    let ?p = "\<lparr>x = a + int i, y = b\<rparr>"
    have bnd: "posIsInBounds ?p (worldDim gs)"
      using assms(2,3,4,5) that by (simp add: posIsInBounds_def)
    have "nat (y ?p * ?w + x ?p) = g + i"
      using ig by simp
    then have "getEntityHandleAtPos gs ?p = handleOfIndex gs (g + i)" "g + i < ?n"
      using getEntityHandleAtPos_inBounds [OF assms(1) bnd] by simp_all
    moreover have "int (g + i) = b * ?w + (a + int i)" using ig by simp
    moreover have "(b * ?w + (a + int i)) mod ?w = a + int i"
      "(b * ?w + (a + int i)) div ?w = b"
      using assms(2,3) that by simp_all
    ultimately show ?thesis by (simp add: handleOfIndex_def add.assoc)
  qed
  have h0: "entity (getEntityHandleAtPos gs \<lparr>x = a, y = b\<rparr>) = Ref g" "g < ?n"
    "int g mod ?w = a" "int g div ?w = b"
    using h [of 0] by simp_all
  have h1: "entity (getEntityHandleAtPos gs \<lparr>x = a + 1, y = b\<rparr>) = Ref (g + 1)" "g + 1 < ?n"
    "int (g + 1) mod ?w = a + 1"
    using h [of 1] by simp_all
  have h2: "entity (getEntityHandleAtPos gs \<lparr>x = a + 2, y = b\<rparr>) = Ref (g + 2)" "g + 2 < ?n"
    "int (g + 2) mod ?w = a + 2"
    using h [of 2] by simp_all
  have k0: "kind (storage gs' ! g) = Generator"
    using sameGrid_kind [OF sg h0(2)] assms(7) by simp
  have k1: "kind (storage gs' ! (g + 1)) = Motor"
    using sameGrid_kind [OF sg h1(2)] assms(8) by simp
  have k2: "kind (storage gs' ! (g + 2)) = Producer"
    using sameGrid_kind [OF sg h2(2)] assms(9) by simp
  have "posOfIndex gs g = \<lparr>x = a, y = b\<rparr>"
    using h0(3,4) by (simp add: posOfIndex_def)
  then have "newRate gs' g
      = (if isCursorOver gs \<lparr>x = a, y = b\<rparr> \<and> leftButtonDown (cursor gs) then 1 else 0)"
    using k0 by (simp add: newRate_def isCursorOver_sameGrid [OF sg] posOfIndex_sameGrid [OF sg]
        sameGrid_fields [OF sg])
  then have r0: "currentRate (storage gs' ! g)
      = (if isCursorOver gs \<lparr>x = a, y = b\<rparr> \<and> leftButtonDown (cursor gs) then 1 else 0)"
    using d [OF h0(2)] assms(7) by (simp add: entityDone_def)
  have "newRate gs' (g + 1) = currentRate (storage gs' ! g) * (5 / 10)"
    using k0 k1 h1(3) assms(2) by (simp add: newRate_def leftRate_def sameGrid_fields [OF sg])
  then have r1: "currentRate (storage gs' ! (g + 1)) = 5 / 10 * currentRate (storage gs' ! g)"
    using d [OF h1(2)] assms(8) by (simp add: entityDone_def)
  have "newRate gs' (g + 2) = currentRate (storage gs' ! (g + 1)) * (8 / 10)"
    using k1 k2 h2(3) assms(2) by (simp add: newRate_def leftRate_def sameGrid_fields [OF sg])
  then have r2: "currentRate (storage gs' ! (g + 2)) = 4 / 10 * currentRate (storage gs' ! g)"
    using d [OF h2(2)] assms(9) r1 by (simp add: entityDone_def)
  show ?thesis using r h0(1) h1(1) h2(1) r0 r1 r2 by blast
qed

section \<open>Concrete checks\<close>

text \<open>The example state after one update pass of 500 ms.\<close>

definition exampleResult :: GameState where
  "exampleResult = exampleState\<lparr>storage :=
        [\<lparr>kind = Generator, currentRate = 1, cycleProgress = 6 / 5\<rparr>,
         \<lparr>kind = Motor, currentRate = 1 / 2, cycleProgress = 1 / 4\<rparr>,
         \<lparr>kind = Producer, currentRate = 2 / 5, cycleProgress = 7 / 10\<rparr>,
         \<lparr>kind = NoneKind, currentRate = 1, cycleProgress = 3\<rparr>,
         \<lparr>kind = Unknown 7, currentRate = 1 / 4, cycleProgress = 1 / 8\<rparr>,
         \<lparr>kind = Producer, currentRate = 0, cycleProgress = 0\<rparr>],
      currentNumber := 1 / 5\<rparr>"

lemma exampleTick:
  "gameUpdateAndRender exampleState 500 = Inr (exampleResult, [UnknownEntityType (Unknown 7)])"
  by code_simp

lemma wellFormedGrid_exampleState: "wellFormedGrid exampleState"
  by (simp add: wellFormedGrid_def exampleState_def)

lemma length_exampleState: "length (storage exampleState) = 6"
  by (simp add: exampleState_def)

text \<open>
  C2, as stated, fails: in the example the generator starts with progress \<open>0.7\<close>, is
  active, and after a pass of 500 ms its progress is \<open>1.2\<close>, with rate \<open>1\<close>.
\<close>

theorem cycleProgress_bound_counterexample:
  "gameUpdateAndRender exampleState 500 = Inr (exampleResult, [UnknownEntityType (Unknown 7)])
   \<and> kind (storage exampleState ! 0) = Generator
   \<and> 0 \<le> cycleProgress (storage exampleState ! 0)
   \<and> 0 \<le> currentRate (storage exampleResult ! 0)
   \<and> \<not> cycleProgress (storage exampleResult ! 0) < 1"
  by code_simp

theorem tick_frame_witness:
  "wellFormedGrid exampleState
   \<and> gameUpdateAndRender exampleState 500 = Inr (exampleResult, [UnknownEntityType (Unknown 7)])
   \<and> kind (storage exampleState ! 3) = NoneKind
   \<and> storage exampleResult ! 3 = storage exampleState ! 3
   \<and> kind (storage exampleResult ! 4) = kind (storage exampleState ! 4)
   \<and> worldDim exampleResult = worldDim exampleState"
proof -
  obtain gs' console where r: "gameUpdateAndRender exampleState 500 = Inr (gs', console)"
    and f: "gs' = exampleState\<lparr>storage := storage gs', currentNumber := currentNumber gs'\<rparr>"
    and k: "\<forall>k < length (storage exampleState).
              kind (storage gs' ! k) = kind (storage exampleState ! k)
              \<and> (kind (storage exampleState ! k) = NoneKind
                   \<longrightarrow> storage gs' ! k = storage exampleState ! k)"
    using tick_frame [OF wellFormedGrid_exampleState, of 500] by blast
  have g: "gs' = exampleResult" using r exampleTick by simp
  have n: "kind (storage exampleState ! 3) = NoneKind" by (simp add: exampleState_def)
  have "storage exampleResult ! 3 = storage exampleState ! 3"
    "kind (storage exampleResult ! 4) = kind (storage exampleState ! 4)"
    using k g n by (simp_all add: length_exampleState)
  moreover have "worldDim gs' = worldDim exampleState"
    by (subst f) simp
  then have "worldDim exampleResult = worldDim exampleState"
    using g by simp
  ultimately show ?thesis
    using wellFormedGrid_exampleState exampleTick n by simp
qed

lemma all_less_6:
  "(\<forall>k < (6::nat). P k) \<longleftrightarrow> P 0 \<and> P 1 \<and> P 2 \<and> P 3 \<and> P 4 \<and> P 5"
proof -
  have "k < 6 \<longleftrightarrow> k = 0 \<or> k = 1 \<or> k = 2 \<or> k = 3 \<or> k = 4 \<or> k = 5" for k :: nat
    by auto
  then show ?thesis by auto
qed

theorem ledger_update_witness:
  "wellFormedGrid exampleState \<and> 0 < referenceCycleDuration exampleState
   \<and> currentNumber exampleResult = currentNumber exampleState + (2 / 5 * 500 / 1000 + 0 * 500 / 1000)
   \<and> currentNumber exampleState \<le> currentNumber exampleResult"
proof -
  have h: "0 < referenceCycleDuration exampleState" by (simp add: exampleState_def)
  obtain gs' console where r: "gameUpdateAndRender exampleState 500 = Inr (gs', console)"
    and n: "currentNumber gs'
          = currentNumber exampleState
            + (\<Sum>k\<leftarrow>filter (\<lambda>k. kind (storage exampleState ! k) = Producer)
                     [0..<length (storage exampleState)].
                 currentRate (storage gs' ! k) * 500 / referenceCycleDuration exampleState)"
    and m: "0 \<le> (500::real)
           \<and> (\<forall>k < length (storage exampleState). kind (storage exampleState ! k) = Producer
                  \<longrightarrow> 0 \<le> currentRate (storage gs' ! k))
           \<longrightarrow> currentNumber exampleState \<le> currentNumber gs'"
    using ledger_update [OF wellFormedGrid_exampleState h, of 500] by blast
  have g: "gs' = exampleResult" using r exampleTick by simp
  have l: "[0..<length (storage exampleState)] = [0, 1, 2, 3, 4, 5]"
    by (simp add: length_exampleState upt_rec)
  have "currentNumber exampleResult
      = currentNumber exampleState + (2 / 5 * 500 / 1000 + 0 * 500 / 1000)"
    using n unfolding g l by (simp add: exampleState_def exampleResult_def)
  moreover have "\<forall>k < length (storage exampleState). kind (storage exampleState ! k) = Producer
                  \<longrightarrow> 0 \<le> currentRate (storage exampleResult ! k)"
    unfolding length_exampleState all_less_6 by (simp add: exampleState_def exampleResult_def)
  then have "currentNumber exampleState \<le> currentNumber exampleResult"
    using m g by simp
  ultimately show ?thesis using wellFormedGrid_exampleState h by simp
qed

theorem unknown_kind_diagnostic_witness:
  "wellFormedGrid exampleState \<and> 4 < length (storage exampleState)
   \<and> kind (storage exampleState ! 4) = Unknown 7
   \<and> gameUpdateAndRender exampleState 500 = Inr (exampleResult, [UnknownEntityType (Unknown 7)])
   \<and> currentRate (storage exampleResult ! 4) = currentRate (storage exampleState ! 4)
   \<and> cycleProgress (storage exampleResult ! 5)
       = wrapCycleProgress (cycleProgress (storage exampleState ! 5))
         + 500 / 1000 * currentRate (storage exampleResult ! 5)"
proof -
  have h: "4 < length (storage exampleState)" "kind (storage exampleState ! 4) = Unknown 7"
    by (simp_all add: exampleState_def)
  obtain gs' console where r: "gameUpdateAndRender exampleState 500 = Inr (gs', console)"
    and u: "UnknownEntityType (Unknown 7) \<in> set console"
    and c: "currentRate (storage gs' ! 4) = currentRate (storage exampleState ! 4)"
    and p: "referenceCycleDuration exampleState \<noteq> 0 \<longrightarrow>
           (\<forall>j < length (storage exampleState). kind (storage exampleState ! j) \<noteq> NoneKind \<longrightarrow>
              cycleProgress (storage gs' ! j)
                = wrapCycleProgress (cycleProgress (storage exampleState ! j))
                  + 500 / referenceCycleDuration exampleState * currentRate (storage gs' ! j))"
    using unknown_kind_diagnostic [OF wellFormedGrid_exampleState h, of 500] by blast
  have g: "gs' = exampleResult" using r exampleTick by simp
  have e: "referenceCycleDuration exampleState = 1000" "5 < length (storage exampleState)"
    "kind (storage exampleState ! 5) \<noteq> NoneKind"
    by (simp_all add: exampleState_def)
  have "cycleProgress (storage exampleResult ! 5)
       = wrapCycleProgress (cycleProgress (storage exampleState ! 5))
         + 500 / 1000 * currentRate (storage exampleResult ! 5)"
    using p e g by simp
  then show ?thesis
    using wellFormedGrid_exampleState h exampleTick c g by simp
qed

theorem rate_cascade_witness:
  "wellFormedGrid exampleState \<and> (0::int) + 2 < x (worldDim exampleState)
   \<and> (0::int) < y (worldDim exampleState)
   \<and> kind (storage exampleState ! 0) = Generator
   \<and> kind (storage exampleState ! 1) = Motor
   \<and> kind (storage exampleState ! 2) = Producer
   \<and> isCursorOver exampleState \<lparr>x = 0, y = 0\<rparr> \<and> leftButtonDown (cursor exampleState)
   \<and> currentRate (storage exampleState ! 1) = 1
   \<and> currentRate (storage exampleResult ! 0) = 1
   \<and> currentRate (storage exampleResult ! 1) = 5 / 10
   \<and> currentRate (storage exampleResult ! 2) = 4 / 10"
proof -
  have h: "(0::int) \<le> 0" "(0::int) + 2 < x (worldDim exampleState)" "(0::int) \<le> 0"
    "(0::int) < y (worldDim exampleState)"
    "(0::nat) = nat (0 * x (worldDim exampleState) + 0)"
    "kind (storage exampleState ! 0) = Generator"
    "kind (storage exampleState ! (0 + 1)) = Motor"
    "kind (storage exampleState ! (0 + 2)) = Producer"
    by (simp_all add: exampleState_def)
  have a: "isCursorOver exampleState \<lparr>x = 0, y = 0\<rparr>" "leftButtonDown (cursor exampleState)"
    "currentRate (storage exampleState ! 1) = 1"
    by (simp_all add: exampleState_def isCursorOver_def)
  obtain gs' console where r: "gameUpdateAndRender exampleState 500 = Inr (gs', console)"
    and r0: "currentRate (storage gs' ! 0)
          = (if isCursorOver exampleState \<lparr>x = 0, y = 0\<rparr> \<and> leftButtonDown (cursor exampleState)
             then 1 else 0)"
    and r1: "currentRate (storage gs' ! (0 + 1)) = 5 / 10 * currentRate (storage gs' ! 0)"
    and r2: "currentRate (storage gs' ! (0 + 2)) = 4 / 10 * currentRate (storage gs' ! 0)"
    using rate_cascade [OF wellFormedGrid_exampleState h, of 500] by blast
  have g: "gs' = exampleResult" using r exampleTick by simp
  have "currentRate (storage exampleResult ! 0) = 1"
    "currentRate (storage exampleResult ! 1) = 5 / 10"
    "currentRate (storage exampleResult ! 2) = 4 / 10"
    using r0 r1 r2 a g by (simp_all add: numeral_2_eq_2)
  then show ?thesis using wellFormedGrid_exampleState h a by (simp add: numeral_2_eq_2)
qed


section \<open>Arithmetic of doubles\<close>

text \<open>
  A sum or difference that is itself a double is not rounded, subtracting \<open>1\<close> from a
  double between \<open>1\<close> and \<open>2\<^sup>5\<^sup>3\<close> is exact, and rounding is monotone.
\<close>

lemma jsGe_Fin [simp]: "jsGe (Fin u) (Fin v) \<longleftrightarrow> v \<le> u"
  by (simp add: jsGe_def)

lemma jsSub_Fin [simp]: "jsSub (Fin u) (Fin v) = roundDouble (u - v)"
  by (simp add: jsSub_def jsNeg_def jsAdd_def)

lemma jsAdd_Fin [simp]: "jsAdd (Fin u) (Fin v) = roundDouble (u + v)"
  by (simp add: jsAdd_def)

lemma roundEven_of_int [simp]: "roundEven (of_int m) = m"
  by (simp add: roundEven_def)

lemma pow2_pos [simp]: "0 < pow2 e"
  by (simp add: pow2_def)

lemma pow2_nonneg [simp]: "0 \<le> pow2 e"
  by (simp add: pow2_def)

lemma pow2_neq_0 [simp]: "pow2 e \<noteq> 0"
  by (simp add: pow2_def)

lemma pow2_add: "pow2 (a + b) = pow2 a * pow2 b"
  by (simp add: pow2_def powr_add)

lemma pow2_nat: "pow2 (int n) = 2 ^ n"
  by (simp add: pow2_def powr_realpow)

lemma pow2_0 [simp]: "pow2 0 = 1"
  by (simp add: pow2_def)

lemma pow2_le_iff [simp]: "pow2 a \<le> pow2 b \<longleftrightarrow> a \<le> b"
  by (simp add: pow2_def)

lemma pow2_less_iff [simp]: "pow2 a < pow2 b \<longleftrightarrow> a < b"
  by (simp add: pow2_def)

lemma pow2_diff_nat: "a \<le> b \<Longrightarrow> pow2 b = pow2 a * 2 ^ nat (b - a)"
proof -
  assume "a \<le> b"
  then have "pow2 (b - a) = 2 ^ nat (b - a)"
    using pow2_nat [of "nat (b - a)"] by simp
  moreover have "pow2 b = pow2 a * pow2 (b - a)"
    using pow2_add [of a "b - a"] by simp
  ultimately show ?thesis by simp
qed

lemma pow2_numeral: "pow2 (numeral k) = 2 ^ numeral k"
  using pow2_nat [of "numeral k"] by simp

lemma floorLog_unique:
  assumes "0 < a" "pow2 k \<le> a" "a < pow2 (k + 1)"
  shows "\<lfloor>log 2 a\<rfloor> = k"
  using assms by (simp add: floor_log_eq_powr_iff pow2_def)

lemma floorLog_bounds:
  assumes "r \<noteq> 0"
  shows "pow2 \<lfloor>log 2 \<bar>r\<bar>\<rfloor> \<le> \<bar>r\<bar>" and "\<bar>r\<bar> < pow2 (\<lfloor>log 2 \<bar>r\<bar>\<rfloor> + 1)"
proof -
  have "0 < \<bar>r\<bar>" using assms by simp
  then have "2 powr \<lfloor>log 2 \<bar>r\<bar>\<rfloor> \<le> \<bar>r\<bar> \<and> \<bar>r\<bar> < 2 powr (\<lfloor>log 2 \<bar>r\<bar>\<rfloor> + 1)"
    using floor_log_eq_powr_iff [of "\<bar>r\<bar>" 2 "\<lfloor>log 2 \<bar>r\<bar>\<rfloor>"] by simp
  then show "pow2 \<lfloor>log 2 \<bar>r\<bar>\<rfloor> \<le> \<bar>r\<bar>" and "\<bar>r\<bar> < pow2 (\<lfloor>log 2 \<bar>r\<bar>\<rfloor> + 1)"
    by (simp_all add: pow2_def)
qed

lemma floorLog_less:
  assumes "r \<noteq> 0" "\<bar>r\<bar> < pow2 k"
  shows "\<lfloor>log 2 \<bar>r\<bar>\<rfloor> < k"
proof -
  have "pow2 \<lfloor>log 2 \<bar>r\<bar>\<rfloor> < pow2 k"
    using floorLog_bounds(1) [OF assms(1)] assms(2) by linarith
  then show ?thesis by simp
qed

lemma roundReal_exact:
  assumes "r = of_int m * pow2 e0" "ulpExponent r \<le> e0"
  shows "roundReal r = r"
proof (cases "r = 0")
  case True
  then show ?thesis by (simp add: roundReal_def)
next
  case False
  define e where "e = ulpExponent r"
  define k where "k = nat (e0 - e)"
  have "pow2 e0 = pow2 e * 2 ^ k"
    unfolding k_def using assms(2) e_def by (intro pow2_diff_nat) simp
  then have "r = of_int m * (pow2 e * 2 ^ k)"
    using assms(1) by simp
  then have q: "r / pow2 e = of_int (m * 2 ^ k)"
    by simp
  then have "roundEven (r / pow2 e) = m * 2 ^ k"
    by (simp only: roundEven_of_int)
  then have "roundReal r = of_int (m * 2 ^ k) * pow2 e"
    using False by (simp add: roundReal_def e_def)
  also have "\<dots> = r"
    using q by (simp add: field_simps)
  finally show ?thesis .
qed

lemma ulpExponent_le:
  assumes "r = of_int m * pow2 e0" "\<bar>m\<bar> < 2 ^ 53" "- 1074 \<le> e0" "r \<noteq> 0"
  shows "ulpExponent r \<le> e0"
proof -
  have "\<bar>r\<bar> = of_int \<bar>m\<bar> * pow2 e0"
    using assms(1) by (simp add: abs_mult)
  moreover have "(of_int \<bar>m\<bar> :: real) < 2 ^ 53"
    using assms(2) by (metis of_int_less_iff of_int_numeral of_int_power)
  ultimately have "\<bar>r\<bar> < 2 ^ 53 * pow2 e0"
    by (simp add: mult_strict_right_mono)
  also have "\<dots> = pow2 (53 + e0)"
    using pow2_add [of 53 e0] pow2_numeral [of "num.Bit1 (num.Bit0 (num.Bit1 (num.Bit0 (num.Bit1 num.One))))"]
    by simp
  finally have "\<lfloor>log 2 \<bar>r\<bar>\<rfloor> < 53 + e0"
    using floorLog_less [OF assms(4)] by simp
  then show ?thesis
    using assms(3) by (simp add: ulpExponent_def)
qed

lemma roundReal_id: "isDouble r \<Longrightarrow> roundReal r = r"
proof -
  assume "isDouble r"
  then obtain m e0 :: int where r: "r = of_int m * pow2 e0"
    and m: "\<bar>m\<bar> < 2 ^ 53" and e: "- 1074 \<le> e0"
    unfolding isDouble_def by blast
  show ?thesis
  proof (cases "r = 0")
    case True
    then show ?thesis by (simp add: roundReal_def)
  next
    case False
    show ?thesis
      using r ulpExponent_le [OF r m e False] by (rule roundReal_exact)
  qed
qed

lemma isDouble_bound:
  assumes "isDouble r"
  shows "\<bar>r\<bar> < pow2 1024"
proof -
  obtain m e0 :: int where r: "r = of_int m * pow2 e0"
    and m: "\<bar>m\<bar> < 2 ^ 53" and e: "e0 \<le> 971"
    using assms unfolding isDouble_def by blast
  have "\<bar>r\<bar> = of_int \<bar>m\<bar> * pow2 e0"
    using r by (simp add: abs_mult)
  moreover have "(of_int \<bar>m\<bar> :: real) < 2 ^ 53"
    using m by (metis of_int_less_iff of_int_numeral of_int_power)
  ultimately have "\<bar>r\<bar> < 2 ^ 53 * pow2 e0"
    by (simp add: mult_strict_right_mono)
  also have "\<dots> = pow2 (53 + e0)"
    using pow2_add [of 53 e0] pow2_numeral [of "num.Bit1 (num.Bit0 (num.Bit1 (num.Bit0 (num.Bit1 num.One))))"]
    by simp
  also have "\<dots> \<le> pow2 1024"
    using e by simp
  finally show ?thesis .
qed

lemma roundDouble_id: "isDouble r \<Longrightarrow> roundDouble r = Fin r"
  using isDouble_bound [of r] by (simp add: roundDouble_def roundReal_id)

lemma isDouble_of_int: "\<bar>m\<bar> < 2 ^ 53 \<Longrightarrow> isDouble (of_int m)"
  unfolding isDouble_def by (intro exI [of _ m] exI [of _ 0]) simp

lemma isDouble_scaled:
  "\<bar>m\<bar> < 2 ^ 53 \<Longrightarrow> - 1074 \<le> e \<Longrightarrow> e \<le> 971 \<Longrightarrow> isDouble (of_int m * pow2 e)"
  unfolding isDouble_def by blast

lemma isDouble_minus_one:
  assumes "isDouble c" "1 \<le> c" "c \<le> 2 ^ 53"
  shows "isDouble (c - 1)"
proof -
  obtain m e :: int where c: "c = of_int m * pow2 e"
    and m: "\<bar>m\<bar> < 2 ^ 53" and e: "- 1074 \<le> e" "e \<le> 971"
    using assms(1) unfolding isDouble_def by blast
  show ?thesis
  proof (cases "0 \<le> e")
    case True
    then have "pow2 e = 2 ^ nat e" using pow2_nat [of "nat e"] by simp
    then have ci: "c = of_int (m * 2 ^ nat e)" using c by simp
    then have "c - 1 = of_int (m * 2 ^ nat e - 1)" by simp
    moreover have "\<bar>m * 2 ^ nat e - 1\<bar> < 2 ^ 53"
    proof -
      have "(1::real) \<le> of_int (m * 2 ^ nat e)" "of_int (m * 2 ^ nat e) \<le> (2 ^ 53 :: real)"
        using assms(2,3) ci by simp_all
      then have "1 \<le> m * 2 ^ nat e" "m * 2 ^ nat e \<le> 2 ^ 53"
        by (simp_all only: of_int_1_le_iff of_int_le_numeral_power_cancel_iff)
      then show ?thesis by simp
    qed
    ultimately show ?thesis using isDouble_of_int by metis
  next
    case False
    define k where "k = nat (- e)"
    have "pow2 0 = pow2 e * 2 ^ k"
      unfolding k_def using False pow2_diff_nat [of e 0] by simp
    then have one: "1 = of_int (2 ^ k) * pow2 e" by (simp add: mult.commute)
    then have "c - 1 = of_int (m - 2 ^ k) * pow2 e"
      using c by (simp add: algebra_simps)
    moreover have "\<bar>m - 2 ^ k\<bar> < 2 ^ 53"
    proof -
      have "of_int (2 ^ k) * pow2 e \<le> of_int m * pow2 e"
        using assms(2) c one by simp
      then have "(of_int (2 ^ k) :: real) \<le> of_int m"
        by (simp add: mult_le_cancel_right)
      then have "2 ^ k \<le> m" by (simp only: of_int_le_iff)
      moreover have "(0::int) < 2 ^ k" by simp
      ultimately show ?thesis using m by linarith
    qed
    ultimately show ?thesis using e isDouble_scaled by metis
  qed
qed

lemma wrapCycleProgressDouble_exact:
  "isDouble c \<Longrightarrow> c \<le> 2 ^ 53 \<Longrightarrow>
   wrapCycleProgressDouble (Fin c) = Some (Fin (wrapCycleProgress c))
   \<and> isDouble (wrapCycleProgress c)"
proof (induction c rule: wrapCycleProgress.induct)
  case (1 c)
  show ?case
  proof (cases "1 \<le> c")
    case True
    have d: "isDouble (c - 1)" using "1.prems" True by (simp add: isDouble_minus_one)
    have "wrapCycleProgressDouble (Fin c) = wrapCycleProgressDouble (Fin (c - 1))"
      using True d by (subst wrapCycleProgressDouble.simps) (simp add: roundDouble_id)
    moreover have "wrapCycleProgress c = wrapCycleProgress (c - 1)"
      using True by (subst wrapCycleProgress.simps) simp
    ultimately show ?thesis
      using "1.IH" [OF True d] "1.prems"(2) by simp
  next
    case False
    then have "wrapCycleProgressDouble (Fin c) = Some (Fin c)"
      by (subst wrapCycleProgressDouble.simps) simp
    moreover have "wrapCycleProgress c = c"
      using False by (subst wrapCycleProgress.simps) simp
    ultimately show ?thesis using "1.prems"(1) by simp
  qed
qed

lemma wrapCycleProgressDouble_stuck:
  assumes "jsGe c (Fin 1)" "jsSub c (Fin 1) = c"
  shows "wrapCycleProgressDouble c = None"
proof -
  have "a \<noteq> c" if s: "wrapCycleProgressDouble a = Some b" for a b
  proof (rule wrapCycleProgressDouble.raw_induct [where P = "\<lambda>u v. u \<noteq> c", OF _ s])
    fix f :: "double \<Rightarrow> double option" and u v
    assume ih: "\<And>p q. f p = Some q \<Longrightarrow> p \<noteq> c"
      and st: "(if jsGe u (Fin 1) then f (jsSub u (Fin 1)) else Some u) = Some v"
    show "u \<noteq> c"
    proof
      assume "u = c"
      then have "f c = Some v" using st assms by simp
      then show False using ih by blast
    qed
  qed
  then show ?thesis by (cases "wrapCycleProgressDouble c") auto
qed

lemma ulpExponent_eq:
  assumes "0 < a" "pow2 k \<le> a" "a < pow2 (k + 1)" "- 1022 \<le> k"
  shows "ulpExponent a = k - 52"
proof -
  have "\<lfloor>log 2 \<bar>a\<bar>\<rfloor> = k"
    using assms(1,2,3) floorLog_unique [of a k] by simp
  then show ?thesis using assms(4) by (simp add: ulpExponent_def)
qed

lemma roundEven_tie_odd:
  assumes "q = of_int f + 1 / 2" "odd f"
  shows "roundEven q = f + 1"
proof -
  have "\<lfloor>q\<rfloor> = f" using assms(1) by linarith
  then show ?thesis using assms by (simp add: roundEven_def)
qed

lemma pow2_values: "pow2 1 = 2" "pow2 53 = 2 ^ 53" "pow2 54 = 2 ^ 54"
  using pow2_nat [of 1] pow2_nat [of 53] pow2_nat [of 54] by simp_all

lemma roundReal_tie_up:
  assumes "0 < a" "pow2 k \<le> a" "a < pow2 (k + 1)" "- 1022 \<le> k"
    and "a / pow2 (k - 52) = of_int f + 1 / 2" "odd f"
  shows "roundReal a = of_int (f + 1) * pow2 (k - 52)"
proof -
  have e: "ulpExponent a = k - 52"
    using assms(1,2,3,4) by (rule ulpExponent_eq)
  have "roundEven (a / pow2 (k - 52)) = f + 1"
    using assms(5,6) by (rule roundEven_tie_odd)
  then show ?thesis
    using assms(1) by (simp add: roundReal_def e)
qed

lemma roundReal_2_54: "roundReal (2 ^ 54 - 1) = 2 ^ 54"
proof -
  have "roundReal (2 ^ 54 - 1) = of_int ((2 ^ 53 - 1) + 1) * pow2 (53 - 52)"
    by (rule roundReal_tie_up) (simp_all add: pow2_values)
  then show ?thesis by (simp add: pow2_values)
qed

lemma less_pow2_1024: "a \<le> 2 ^ 54 \<Longrightarrow> a < pow2 1024"
proof -
  assume "a \<le> 2 ^ 54"
  moreover have "pow2 54 < pow2 1024" by simp
  ultimately show ?thesis unfolding pow2_values by linarith
qed

lemma jsSub_2_54: "jsSub (Fin (2 ^ 54)) (Fin 1) = Fin (2 ^ 54)"
  unfolding jsSub_Fin roundDouble_def roundReal_2_54
  using less_pow2_1024 [of "2 ^ 54"] by simp

lemma jsSub_PosInf: "jsSub PosInf (Fin 1) = PosInf" "jsGe PosInf (Fin 1)"
  by (simp_all add: jsSub_def jsAdd_def jsNeg_def jsGe_def)

lemma wrapCycleProgressDouble_2_54: "wrapCycleProgressDouble (Fin (2 ^ 54)) = None"
  by (rule wrapCycleProgressDouble_stuck) (simp_all only: jsSub_2_54 jsGe_Fin, simp)

lemma wrapCycleProgressDouble_PosInf: "wrapCycleProgressDouble PosInf = None"
  by (rule wrapCycleProgressDouble_stuck) (simp_all add: jsSub_PosInf)

lemma pow2_not_le_0 [simp]: "\<not> pow2 e \<le> 0"
  using pow2_pos [of e] by linarith

lemma roundEven_cases: "roundEven q = \<lfloor>q\<rfloor> \<or> roundEven q = \<lfloor>q\<rfloor> + 1"
  by (simp add: roundEven_def Let_def)

lemma roundEven_ge: "of_int n \<le> q \<Longrightarrow> n \<le> roundEven q"
proof -
  assume "of_int n \<le> q"
  then have "n \<le> \<lfloor>q\<rfloor>" by (simp add: le_floor_iff)
  then show ?thesis using roundEven_cases [of q] by linarith
qed

lemma roundEven_le: "q \<le> of_int n \<Longrightarrow> roundEven q \<le> n"
proof (cases "q = of_int n")
  case True
  then show ?thesis by simp
next
  case False
  assume "q \<le> of_int n"
  then have "q < of_int n" using False by simp
  then have "\<lfloor>q\<rfloor> < n" by (simp add: floor_less_iff)
  then show ?thesis using roundEven_cases [of q] by linarith
qed

lemma roundEven_mono:
  assumes "q1 \<le> q2"
  shows "roundEven q1 \<le> roundEven q2"
proof (cases "\<lfloor>q1\<rfloor> = \<lfloor>q2\<rfloor>")
  case True
  then show ?thesis
    using assms by (auto simp: roundEven_def Let_def)
next
  case False
  then have "\<lfloor>q1\<rfloor> < \<lfloor>q2\<rfloor>"
    using assms floor_mono [of q1 q2] by linarith
  then show ?thesis
    using roundEven_cases [of q1] roundEven_cases [of q2] by linarith
qed

lemma ulpExponent_mono:
  assumes "0 < a" "a \<le> b"
  shows "ulpExponent a \<le> ulpExponent b"
proof -
  have "log 2 a \<le> log 2 b" using assms by simp
  then have "\<lfloor>log 2 \<bar>a\<bar>\<rfloor> \<le> \<lfloor>log 2 \<bar>b\<bar>\<rfloor>"
    using assms by (simp add: floor_mono)
  then show ?thesis by (simp add: ulpExponent_def)
qed

lemma roundReal_nonneg: "0 \<le> r \<Longrightarrow> 0 \<le> roundReal r"
proof -
  assume "0 \<le> r"
  then have "(of_int 0 :: real) \<le> r / pow2 (ulpExponent r)" by simp
  then have "0 \<le> roundEven (r / pow2 (ulpExponent r))" by (rule roundEven_ge)
  then show ?thesis by (simp add: roundReal_def)
qed

lemma roundReal_upper:
  assumes "0 < a"
  shows "roundReal a \<le> pow2 (ulpExponent a + 53)"
proof -
  let ?e = "ulpExponent a"
  have "\<lfloor>log 2 \<bar>a\<bar>\<rfloor> + 1 \<le> ?e + 53" by (simp add: ulpExponent_def)
  then have "pow2 (\<lfloor>log 2 \<bar>a\<bar>\<rfloor> + 1) \<le> pow2 (?e + 53)"
    by (simp only: pow2_le_iff)
  moreover have "\<bar>a\<bar> < pow2 (\<lfloor>log 2 \<bar>a\<bar>\<rfloor> + 1)"
    using assms by (intro floorLog_bounds(2)) simp
  ultimately have "a < pow2 (?e + 53)"
    using assms by linarith
  also have "\<dots> = pow2 ?e * 2 ^ 53"
    using pow2_add [of ?e 53] pow2_values by simp
  finally have "a / pow2 ?e \<le> of_int (2 ^ 53)"
    by (simp add: field_simps)
  then have "roundEven (a / pow2 ?e) \<le> 2 ^ 53" by (rule roundEven_le)
  then have "(of_int (roundEven (a / pow2 ?e)) :: real) \<le> 2 ^ 53"
    by (simp only: of_int_le_numeral_power_cancel_iff)
  then have "of_int (roundEven (a / pow2 ?e)) * pow2 ?e \<le> 2 ^ 53 * pow2 ?e"
    by (simp add: mult_right_mono)
  then show ?thesis
    using assms pow2_add [of ?e 53] pow2_values by (simp add: roundReal_def mult.commute)
qed

lemma roundReal_lower:
  assumes "0 < b" "- 1074 < ulpExponent b"
  shows "pow2 (ulpExponent b + 52) \<le> roundReal b"
proof -
  let ?e = "ulpExponent b"
  have e: "?e = \<lfloor>log 2 \<bar>b\<bar>\<rfloor> - 52"
    using assms(2) by (simp add: ulpExponent_def)
  have "pow2 (?e + 52) \<le> b"
    using floorLog_bounds(1) [of b] assms(1) e by simp
  moreover have p: "pow2 (?e + 52) = pow2 ?e * 2 ^ 52"
    using pow2_add [of ?e 52] pow2_nat [of 52] by simp
  ultimately have "of_int (2 ^ 52) \<le> b / pow2 ?e"
    by (simp add: field_simps)
  then have "2 ^ 52 \<le> roundEven (b / pow2 ?e)" by (rule roundEven_ge)
  then have "(2 ^ 52 :: real) \<le> of_int (roundEven (b / pow2 ?e))"
    by (simp only: numeral_power_le_of_int_cancel_iff)
  then have "2 ^ 52 * pow2 ?e \<le> of_int (roundEven (b / pow2 ?e)) * pow2 ?e"
    by (simp add: mult_right_mono)
  then show ?thesis
    using assms(1) p by (simp add: roundReal_def mult.commute)
qed

lemma roundReal_mono:
  assumes "0 \<le> a" "a \<le> b"
  shows "roundReal a \<le> roundReal b"
proof (cases "a = 0")
  case True
  then show ?thesis using assms roundReal_nonneg [of b] by (simp add: roundReal_def)
next
  case False
  then have a: "0 < a" and b: "0 < b" using assms by simp_all
  have le: "ulpExponent a \<le> ulpExponent b" using a assms(2) by (rule ulpExponent_mono)
  show ?thesis
  proof (cases "ulpExponent a = ulpExponent b")
    case True
    have "a / pow2 (ulpExponent b) \<le> b / pow2 (ulpExponent b)"
      using assms(2) by (simp add: divide_right_mono)
    then have "roundEven (a / pow2 (ulpExponent b)) \<le> roundEven (b / pow2 (ulpExponent b))"
      by (rule roundEven_mono)
    then have "(of_int (roundEven (a / pow2 (ulpExponent b))) :: real)
        \<le> of_int (roundEven (b / pow2 (ulpExponent b)))"
      by simp
    then show ?thesis
      using a b True by (simp add: roundReal_def mult_right_mono)
  next
    case False
    then have lt: "ulpExponent a < ulpExponent b" using le by simp
    have "- 1074 \<le> ulpExponent a" by (simp add: ulpExponent_def)
    then have "- 1074 < ulpExponent b" using lt by simp
    then have "pow2 (ulpExponent b + 52) \<le> roundReal b"
      using b roundReal_lower by simp
    moreover have "roundReal a \<le> pow2 (ulpExponent a + 53)"
      using a by (rule roundReal_upper)
    moreover have "pow2 (ulpExponent a + 53) \<le> pow2 (ulpExponent b + 52)"
      using lt by simp
    ultimately show ?thesis by linarith
  qed
qed

lemma roundDouble_mono:
  assumes "0 \<le> a" "a \<le> b"
  shows "jsGe (roundDouble b) (roundDouble a)"
proof -
  have m: "roundReal a \<le> roundReal b" using assms by (rule roundReal_mono)
  have n: "0 \<le> roundReal a" using assms(1) by (rule roundReal_nonneg)
  show ?thesis
  proof (cases "pow2 1024 \<le> \<bar>roundReal a\<bar>")
    case True
    then have "pow2 1024 \<le> \<bar>roundReal b\<bar>" using m n by linarith
    moreover have "0 < a"
      using True by (cases "a = 0") (simp_all add: roundReal_def assms(1) less_le)
    ultimately show ?thesis
      using True assms by (simp add: roundDouble_def jsGe_def)
  next
    case False
    have "0 < b \<or> b = 0" using assms by linarith
    then show ?thesis
    proof
      assume "0 < b"
      then show ?thesis using False m n by (simp add: roundDouble_def jsGe_def)
    next
      assume "b = 0"
      then have "a = 0" using assms by simp
      then show ?thesis using \<open>b = 0\<close> by (simp add: roundDouble_def roundReal_def)
    qed
  qed
qed

section \<open>The wrap loop and the addition on doubles: properties\<close>

lemma wrapCycleProgressDouble_below_one:
  "\<not> jsGe d (Fin 1) \<Longrightarrow> wrapCycleProgressDouble d = Some d"
  by (subst wrapCycleProgressDouble.simps) simp

lemma accumulateDouble_exact:
  assumes "isDouble c" "c \<le> 2 ^ 53"
  shows "accumulateDouble (Fin c) increment = Some (jsAdd (Fin (wrapCycleProgress c)) increment)"
  using wrapCycleProgressDouble_exact [OF assms] by (simp add: accumulateDouble_def)

lemma roundDouble_0 [simp]: "roundDouble 0 = Fin 0"
  by (simp add: roundDouble_def roundReal_def)

lemma accumulateDouble_zero:
  assumes "isDouble c" "c \<le> 2 ^ 53"
  shows "accumulateDouble (Fin c) (Fin 0) = Some (Fin (wrapCycleProgress c))"
  using wrapCycleProgressDouble_exact [OF assms] accumulateDouble_exact [OF assms, of "Fin 0"]
  by (simp add: roundDouble_id)

lemma accumulateDouble_bounds:
  assumes "isDouble c" "0 \<le> c" "c \<le> 2 ^ 53" "isDouble increment" "0 \<le> increment"
  shows "\<exists>v. accumulateDouble (Fin c) (Fin increment) = Some v
           \<and> jsGe v (Fin increment) \<and> jsGe (jsAdd (Fin 1) (Fin increment)) v"
proof -
  let ?w = "wrapCycleProgress c"
  have w: "0 \<le> ?w" "?w < 1"
    using assms(2) by (simp_all add: wrapCycleProgress_nonneg wrapCycleProgress_less)
  have a: "accumulateDouble (Fin c) (Fin increment) = Some (roundDouble (?w + increment))"
    using accumulateDouble_exact [OF assms(1,3), of "Fin increment"] by simp
  have "jsGe (roundDouble (?w + increment)) (roundDouble increment)"
    using assms(5) w(1) by (intro roundDouble_mono) simp_all
  then have l: "jsGe (roundDouble (?w + increment)) (Fin increment)"
    using assms(4) by (simp add: roundDouble_id)
  have u: "jsGe (jsAdd (Fin 1) (Fin increment)) (roundDouble (?w + increment))"
    unfolding jsAdd_Fin using assms(5) w by (intro roundDouble_mono) simp_all
  show ?thesis using a l u by blast
qed

lemma pow2_neg: "pow2 (- int n) = 1 / 2 ^ n"
proof -
  have "pow2 (- int n) * pow2 (int n) = 1"
    using pow2_add [of "- int n" "int n"] by simp
  then show ?thesis by (simp add: pow2_nat field_simps)
qed

text \<open>
  The upper bound of the addition is reached: a progress of \<open>1 - 2\<^sup>-\<^sup>5\<^sup>3\<close>, the largest
  double below \<open>1\<close>, is not wrapped, and with the increment \<open>0.5\<close> the sum rounds to \<open>1.5\<close>.
\<close>

lemma accumulateDouble_attains:
  "accumulateDouble (Fin (1 - 1 / 2 ^ 53)) (Fin (1 / 2)) = Some (Fin (3 / 2))"
proof -
  have n: "pow2 (- 52) = 1 / 2 ^ 52" "pow2 (- 53) = 1 / 2 ^ 53"
    using pow2_neg [of 52] pow2_neg [of 53] by simp_all
  have "isDouble (of_int (2 ^ 53 - 1) * pow2 (- 53))"
    by (rule isDouble_scaled) simp_all
  then have d: "isDouble (1 - 1 / 2 ^ 53)" by (simp add: n)
  have w: "wrapCycleProgress (1 - 1 / 2 ^ 53) = 1 - 1 / 2 ^ 53"
    by (subst wrapCycleProgress.simps) simp
  have "roundReal (3 / 2 - 1 / 2 ^ 53) = of_int ((3 * 2 ^ 51 - 1) + 1) * pow2 (0 - 52)"
    by (rule roundReal_tie_up) (simp_all add: pow2_values n)
  then have r: "roundReal (3 / 2 - 1 / 2 ^ 53) = 3 / 2"
    by (simp add: n)
  have "roundDouble (3 / 2 - 1 / 2 ^ 53) = Fin (3 / 2)"
    unfolding roundDouble_def r using less_pow2_1024 [of "3 / 2"] by simp
  moreover have "1 - 1 / 2 ^ 53 + 1 / 2 = (3 / 2 - 1 / 2 ^ 53 :: real)" by simp
  ultimately have "jsAdd (Fin (1 - 1 / 2 ^ 53)) (Fin (1 / 2)) = Fin (3 / 2)"
    unfolding jsAdd_Fin by (simp only:)
  then have j: "jsAdd (Fin (1 - 1 / 2 ^ 53)) (Fin (1 / 2)) = Fin (3 / 2)" .
  have b: "(1 - 1 / 2 ^ 53 :: real) \<le> 2 ^ 53"
    by (rule order_trans [of _ 1]) simp_all
  have "accumulateDouble (Fin (1 - 1 / 2 ^ 53)) (Fin (1 / 2))
      = Some (jsAdd (Fin (wrapCycleProgress (1 - 1 / 2 ^ 53))) (Fin (1 / 2)))"
    by (rule accumulateDouble_exact [OF d b])
  also have "\<dots> = Some (Fin (3 / 2))"
    by (simp only: w j)
  finally show ?thesis .
qed

lemma isDouble_2_54: "isDouble (2 ^ 54)"
proof -
  have "isDouble (of_int 1 * pow2 54)"
    by (rule isDouble_scaled) simp_all
  then show ?thesis by (simp add: pow2_values)
qed

lemma isDouble_example: "isDouble (5 / 2)" "isDouble (1 / 4)" "isDouble (1 / 2)"
proof -
  have "isDouble (of_int 5 * pow2 (- 1))" "isDouble (of_int 1 * pow2 (- 2))"
    "isDouble (of_int 1 * pow2 (- 1))"
    by (rule isDouble_scaled; simp)+
  moreover have "pow2 (- 1) = 1 / 2" "pow2 (- 2) = 1 / 4"
    using pow2_neg [of 1] pow2_neg [of 2] by simp_all
  ultimately show "isDouble (5 / 2)" "isDouble (1 / 4)" "isDouble (1 / 2)"
    by (simp_all only: of_int_numeral of_int_1 mult_1 times_divide_eq_right mult_1_right)
qed

lemma exampleState_bounded:
  "list_all (\<lambda>e. cycleProgress e \<le> 2 ^ 53) (storage exampleState)"
  by (simp add: exampleState_def)

lemma exampleState_progress:
  "\<forall>j < length (storage exampleState). kind (storage exampleState ! j) \<noteq> NoneKind
      \<longrightarrow> cycleProgress (storage exampleState ! j) \<le> 2 ^ 53"
  unfolding length_exampleState all_less_6 by (simp add: exampleState_def)

text \<open>
  C7, as stated, fails. On doubles \<open>2\<^sup>5\<^sup>4 - 1\<close> rounds back to \<open>2\<^sup>5\<^sup>4\<close>, and
  \<^verbatim>\<open>Infinity - 1\<close> is \<^verbatim>\<open>Infinity\<close>: with such a \<^verbatim>\<open>cycleProgress\<close> the condition of the wrap
  loop stays true and the loop never exits. And on a state whose storage is shorter than
  the grid (the example without its last entity) the pass throws.
\<close>

theorem wrap_loop_diverges_counterexample:
  "isDouble (2 ^ 54)
   \<and> wrapCycleProgressDouble (Fin (2 ^ 54)) = None
   \<and> wrapCycleProgressDouble PosInf = None
   \<and> gameUpdateAndRender (exampleState\<lparr>storage := take 5 (storage exampleState)\<rparr>) 500
       = Inl TypeError"
proof -
  have "gameUpdateAndRender (exampleState\<lparr>storage := take 5 (storage exampleState)\<rparr>) 500
       = Inl TypeError"
    by code_simp
  then show ?thesis
    using isDouble_2_54 wrapCycleProgressDouble_2_54 wrapCycleProgressDouble_PosInf by simp
qed

text \<open>
  C7, as amended. On a well-formed grid on which the progress of every occupied entity is
  at most \<open>2\<^sup>5\<^sup>3\<close>, the update pass returns a state, whatever the rates and the elapsed
  time. The wrap loop on doubles returns for every double \<open>c\<close> that is at most \<open>2\<^sup>5\<^sup>3\<close>,
  after a finite number \<open>n\<close> of subtractions, each of them exact, with a result below \<open>1\<close>;
  and it returns at once for every value that is not at least \<open>1\<close>, \<^verbatim>\<open>NaN\<close> and
  \<^verbatim>\<open>-Infinity\<close> included.
\<close>

theorem gameUpdateAndRender_returns:
  "(wellFormedGrid gs
      \<and> (\<forall>j < length (storage gs). kind (storage gs ! j) \<noteq> NoneKind
             \<longrightarrow> cycleProgress (storage gs ! j) \<le> 2 ^ 53)
      \<longrightarrow> (\<exists>gs' console. gameUpdateAndRender gs deltaTime = Inr (gs', console)))
   \<and> (isDouble c \<and> c \<le> 2 ^ 53
      \<longrightarrow> (\<exists>n::nat. wrapCycleProgressDouble (Fin c) = Some (Fin (c - real n)) \<and> c - real n < 1))
   \<and> (\<not> jsGe d (Fin 1) \<longrightarrow> wrapCycleProgressDouble d = Some d)"
proof (intro conjI impI)
  assume "wellFormedGrid gs
      \<and> (\<forall>j < length (storage gs). kind (storage gs ! j) \<noteq> NoneKind
             \<longrightarrow> cycleProgress (storage gs ! j) \<le> 2 ^ 53)"
  then show "\<exists>gs' console. gameUpdateAndRender gs deltaTime = Inr (gs', console)"
    using gameUpdateAndRender_result by blast
next
  assume c: "isDouble c \<and> c \<le> 2 ^ 53"
  have n: "wrapCycleProgress c = c - real (if 1 \<le> c then nat \<lfloor>c\<rfloor> else 0)"
    by (simp add: wrapCycleProgress_closed)
  have "wrapCycleProgressDouble (Fin c) = Some (Fin (wrapCycleProgress c))"
    using wrapCycleProgressDouble_exact c by blast
  then show "\<exists>n::nat. wrapCycleProgressDouble (Fin c) = Some (Fin (c - real n)) \<and> c - real n < 1"
    using n wrapCycleProgress_less [of c] by metis
next
  assume "\<not> jsGe d (Fin 1)"
  then show "wrapCycleProgressDouble d = Some d"
    by (rule wrapCycleProgressDouble_below_one)
qed

theorem gameUpdateAndRender_returns_witness:
  "wellFormedGrid exampleState
   \<and> list_all (\<lambda>e. cycleProgress e \<le> 2 ^ 53) (storage exampleState)
   \<and> gameUpdateAndRender exampleState 500 = Inr (exampleResult, [UnknownEntityType (Unknown 7)])
   \<and> isDouble (5 / 2) \<and> (5 / 2 :: real) \<le> 2 ^ 53
   \<and> (\<exists>n::nat. wrapCycleProgressDouble (Fin (5 / 2)) = Some (Fin (5 / 2 - real n))
                \<and> 5 / 2 - real n < 1)
   \<and> \<not> jsGe NaN (Fin 1) \<and> wrapCycleProgressDouble NaN = Some NaN"
proof -
  have b: "(5 / 2 :: real) \<le> 2 ^ 53" by simp
  have n: "\<not> jsGe NaN (Fin 1)" by (simp add: jsGe_def)
  show ?thesis
    using gameUpdateAndRender_returns [of exampleState 500 "5 / 2" NaN]
      wellFormedGrid_exampleState exampleState_progress exampleState_bounded exampleTick
      isDouble_example(1) b n
    by simp
qed

text \<open>
  The example state with a progress of \<open>3\<close> put into its last entity, a producer that the
  pass leaves at rate \<open>0\<close>: the pass gives the same result as on the example state.
\<close>

definition injectedState :: GameState where
  "injectedState = exampleState\<lparr>storage :=
      (storage exampleState)[5 := \<lparr>kind = Producer, currentRate = 1, cycleProgress = 3\<rparr>]\<rparr>"

lemma injectedTick:
  "gameUpdateAndRender injectedState 500 = Inr (exampleResult, [UnknownEntityType (Unknown 7)])"
  by code_simp

lemma wellFormedGrid_injectedState: "wellFormedGrid injectedState"
  by (simp add: wellFormedGrid_def injectedState_def exampleState_def)

lemma injectedState_bounded:
  "list_all (\<lambda>e. cycleProgress e \<le> 2 ^ 53) (storage injectedState)"
  by (simp add: injectedState_def exampleState_def)

lemma injectedState_progress:
  "\<forall>j < length (storage injectedState). kind (storage injectedState ! j) \<noteq> NoneKind
      \<longrightarrow> cycleProgress (storage injectedState ! j) \<le> 2 ^ 53"
proof -
  have l: "length (storage injectedState) = 6"
    by (simp add: injectedState_def exampleState_def)
  show ?thesis
    unfolding l all_less_6 by (simp add: injectedState_def exampleState_def)
qed

text \<open>
  C3, as stated, fails: a progress of \<open>2\<^sup>5\<^sup>4\<close>, which is at least \<open>1\<close>, is not normalized.
  With rate \<open>0\<close> the increment is \<open>0\<close>, and the step of lines 125-128 never reaches its
  addition.
\<close>

theorem progress_not_normalized_counterexample:
  "(1 :: real) \<le> 2 ^ 54 \<and> isDouble (2 ^ 54) \<and> accumulateDouble (Fin (2 ^ 54)) (Fin 0) = None"
  using isDouble_2_54 wrapCycleProgressDouble_2_54 by (simp add: accumulateDouble_def)

text \<open>
  C3, as amended. After one update pass (well-formed grid, nonzero \<^verbatim>\<open>referenceCycleDuration\<close>,
  the progress of every occupied entity at most \<open>2\<^sup>5\<^sup>3\<close>), the progress of every occupied
  entity is the wrapped value of its progress before the pass plus
  \<open>deltaTime / referenceCycleDuration\<close> times its rate as set in this pass. Wrapping
  subtracts \<open>1\<close> as long as the value is at least \<open>1\<close>, that is, it removes the integer
  part of a value that is at least \<open>1\<close> and leaves a smaller value alone. The wrap is done
  whatever the rate: with rate \<open>0\<close> (and a quotient \<open>deltaTime / referenceCycleDuration\<close>
  that does not overflow) the new progress is the wrapped value, below \<open>1\<close>. On doubles
  the step of lines 125-128 returns for such a progress: its loop leaves the same wrapped
  value, every subtraction being exact below \<open>2\<^sup>5\<^sup>3\<close>, the increment is added to it
  afterwards, and with increment \<open>0\<close> the result is the wrapped value.
\<close>

theorem cycle_wrap_then_add:
  assumes "wellFormedGrid gs" and "referenceCycleDuration gs \<noteq> 0"
    and "\<bar>deltaTime / referenceCycleDuration gs\<bar> < 2 ^ 1023"
    and "\<forall>j < length (storage gs). kind (storage gs ! j) \<noteq> NoneKind
           \<longrightarrow> cycleProgress (storage gs ! j) \<le> 2 ^ 53"
    and "k < length (storage gs)" and "kind (storage gs ! k) \<noteq> NoneKind"
  shows "\<exists>gs' console. gameUpdateAndRender gs deltaTime = Inr (gs', console)
      \<and> cycleProgress (storage gs' ! k)
          = wrapCycleProgress (cycleProgress (storage gs ! k))
            + deltaTime / referenceCycleDuration gs * currentRate (storage gs' ! k)
      \<and> wrapCycleProgress (cycleProgress (storage gs ! k))
          = (if 1 \<le> cycleProgress (storage gs ! k)
             then cycleProgress (storage gs ! k) - of_int \<lfloor>cycleProgress (storage gs ! k)\<rfloor>
             else cycleProgress (storage gs ! k))
      \<and> (currentRate (storage gs' ! k) = 0
           \<longrightarrow> cycleProgress (storage gs' ! k) < 1
             \<and> cycleProgress (storage gs' ! k)
                 = wrapCycleProgress (cycleProgress (storage gs ! k)))
      \<and> (isDouble (cycleProgress (storage gs ! k))
           \<longrightarrow> wrapCycleProgressDouble (Fin (cycleProgress (storage gs ! k)))
                 = Some (Fin (wrapCycleProgress (cycleProgress (storage gs ! k))))
             \<and> (\<forall>increment. accumulateDouble (Fin (cycleProgress (storage gs ! k))) increment
                   = Some (jsAdd (Fin (wrapCycleProgress (cycleProgress (storage gs ! k))))
                             increment))
             \<and> accumulateDouble (Fin (cycleProgress (storage gs ! k))) (Fin 0)
                 = Some (Fin (wrapCycleProgress (cycleProgress (storage gs ! k)))))"
proof -
  let ?p = "cycleProgress (storage gs ! k)"
  obtain gs' console where r: "gameUpdateAndRender gs deltaTime = Inr (gs', console)"
    and d: "\<And>k. k < length (storage gs) \<Longrightarrow> entityDone deltaTime gs gs' k"
    using tick_facts [OF assms(1)] by blast
  have c: "cycleProgress (storage gs' ! k)
      = wrapCycleProgress ?p
        + deltaTime / referenceCycleDuration gs * currentRate (storage gs' ! k)"
    using d [OF assms(5)] assms(6) by (simp add: entityDone_def)
  then have z: "currentRate (storage gs' ! k) = 0
      \<longrightarrow> cycleProgress (storage gs' ! k) < 1
        \<and> cycleProgress (storage gs' ! k) = wrapCycleProgress ?p"
    using wrapCycleProgress_less [of ?p] by simp
  have b: "?p \<le> 2 ^ 53" using assms(4,5,6) by blast
  have f: "isDouble ?p
           \<longrightarrow> wrapCycleProgressDouble (Fin ?p) = Some (Fin (wrapCycleProgress ?p))
             \<and> (\<forall>increment. accumulateDouble (Fin ?p) increment
                   = Some (jsAdd (Fin (wrapCycleProgress ?p)) increment))
             \<and> accumulateDouble (Fin ?p) (Fin 0) = Some (Fin (wrapCycleProgress ?p))"
    using wrapCycleProgressDouble_exact [OF _ b] accumulateDouble_exact [OF _ b]
      accumulateDouble_zero [OF _ b]
    by blast
  show ?thesis
    using r c z f wrapCycleProgress_closed [of ?p] by blast
qed

theorem cycle_wrap_then_add_witness:
  "wellFormedGrid exampleState \<and> referenceCycleDuration exampleState \<noteq> 0
   \<and> \<bar>500 / referenceCycleDuration exampleState\<bar> < 2 ^ 1023
   \<and> list_all (\<lambda>e. cycleProgress e \<le> 2 ^ 53) (storage exampleState)
   \<and> 2 < length (storage exampleState) \<and> kind (storage exampleState ! 2) \<noteq> NoneKind
   \<and> cycleProgress (storage exampleState ! 2) = 5 / 2 \<and> isDouble (5 / 2)
   \<and> wrapCycleProgress (5 / 2) = 1 / 2
   \<and> cycleProgress (storage exampleResult ! 2) = 1 / 2 + 500 / 1000 * (2 / 5)
   \<and> wrapCycleProgressDouble (Fin (5 / 2)) = Some (Fin (1 / 2))
   \<and> accumulateDouble (Fin (5 / 2)) (Fin 0) = Some (Fin (1 / 2))
   \<and> wellFormedGrid injectedState \<and> referenceCycleDuration injectedState \<noteq> 0
   \<and> \<bar>500 / referenceCycleDuration injectedState\<bar> < 2 ^ 1023
   \<and> list_all (\<lambda>e. cycleProgress e \<le> 2 ^ 53) (storage injectedState)
   \<and> 5 < length (storage injectedState) \<and> kind (storage injectedState ! 5) \<noteq> NoneKind
   \<and> cycleProgress (storage injectedState ! 5) = 3
   \<and> gameUpdateAndRender injectedState 500
       = Inr (exampleResult, [UnknownEntityType (Unknown 7)])
   \<and> currentRate (storage exampleResult ! 5) = 0
   \<and> cycleProgress (storage exampleResult ! 5) < 1
   \<and> cycleProgress (storage exampleResult ! 5) = wrapCycleProgress 3"
proof -
  have h: "referenceCycleDuration exampleState \<noteq> 0"
    "\<bar>500 / referenceCycleDuration exampleState\<bar> < 2 ^ 1023"
    by (simp_all add: exampleState_def)
  have h': "2 < length (storage exampleState)" "kind (storage exampleState ! 2) \<noteq> NoneKind"
    by (simp_all add: exampleState_def)
  have e: "cycleProgress (storage exampleState ! 2) = 5 / 2" by (simp add: exampleState_def)
  obtain gs' console where r: "gameUpdateAndRender exampleState 500 = Inr (gs', console)"
    and c: "cycleProgress (storage gs' ! 2)
          = wrapCycleProgress (cycleProgress (storage exampleState ! 2))
            + 500 / referenceCycleDuration exampleState * currentRate (storage gs' ! 2)"
    and w: "wrapCycleProgress (cycleProgress (storage exampleState ! 2))
          = (if 1 \<le> cycleProgress (storage exampleState ! 2)
             then cycleProgress (storage exampleState ! 2)
                  - of_int \<lfloor>cycleProgress (storage exampleState ! 2)\<rfloor>
             else cycleProgress (storage exampleState ! 2))"
    and f: "isDouble (cycleProgress (storage exampleState ! 2))
           \<longrightarrow> wrapCycleProgressDouble (Fin (cycleProgress (storage exampleState ! 2)))
                 = Some (Fin (wrapCycleProgress (cycleProgress (storage exampleState ! 2))))
             \<and> (\<forall>increment. accumulateDouble (Fin (cycleProgress (storage exampleState ! 2)))
                     increment
                   = Some (jsAdd (Fin (wrapCycleProgress
                                         (cycleProgress (storage exampleState ! 2))))
                             increment))
             \<and> accumulateDouble (Fin (cycleProgress (storage exampleState ! 2))) (Fin 0)
                 = Some (Fin (wrapCycleProgress (cycleProgress (storage exampleState ! 2))))"
    using cycle_wrap_then_add [OF wellFormedGrid_exampleState h exampleState_progress h']
    by blast
  have g: "gs' = exampleResult" using r exampleTick by simp
  have "\<lfloor>5 / 2 :: real\<rfloor> = 2" by simp
  then have w': "wrapCycleProgress (5 / 2) = 1 / 2" using w e by simp
  have c2: "cycleProgress (storage exampleResult ! 2) = 1 / 2 + 500 / 1000 * (2 / 5)"
    using c g e w' by (simp add: exampleState_def exampleResult_def)
  have d2: "wrapCycleProgressDouble (Fin (5 / 2)) = Some (Fin (1 / 2))"
    "accumulateDouble (Fin (5 / 2)) (Fin 0) = Some (Fin (1 / 2))"
    using f isDouble_example(1) unfolding e w' by blast+
  have i: "referenceCycleDuration injectedState \<noteq> 0"
    "\<bar>500 / referenceCycleDuration injectedState\<bar> < 2 ^ 1023"
    by (simp_all add: injectedState_def exampleState_def)
  have i': "5 < length (storage injectedState)" "kind (storage injectedState ! 5) \<noteq> NoneKind"
    by (simp_all add: injectedState_def exampleState_def)
  have e5: "cycleProgress (storage injectedState ! 5) = 3"
    by (simp add: injectedState_def exampleState_def)
  obtain gs'' console' where
    r5: "gameUpdateAndRender injectedState 500 = Inr (gs'', console')"
    and z: "currentRate (storage gs'' ! 5) = 0
           \<longrightarrow> cycleProgress (storage gs'' ! 5) < 1
             \<and> cycleProgress (storage gs'' ! 5)
                 = wrapCycleProgress (cycleProgress (storage injectedState ! 5))"
    using cycle_wrap_then_add [OF wellFormedGrid_injectedState i injectedState_progress i']
    by blast
  have g5: "gs'' = exampleResult" using r5 injectedTick by simp
  have z0: "currentRate (storage exampleResult ! 5) = 0" by (simp add: exampleResult_def)
  have z5: "cycleProgress (storage exampleResult ! 5) < 1"
    "cycleProgress (storage exampleResult ! 5) = wrapCycleProgress 3"
    using z z0 unfolding g5 e5 by blast+
  show ?thesis
    using wellFormedGrid_exampleState h h' e w' exampleState_bounded isDouble_example(1)
      c2 d2 wellFormedGrid_injectedState i i' e5 injectedState_bounded injectedTick z0 z5
    by blast
qed

text \<open>
  C2, as amended. With a positive \<^verbatim>\<open>referenceCycleDuration\<close>, a non-negative \<open>deltaTime\<close>
  (their quotient not overflowing), on a well-formed grid on which the progress of every
  occupied entity is at most \<open>2\<^sup>5\<^sup>3\<close>, an occupied entity whose progress before the pass
  is non-negative has, after the pass, a non-negative progress if its rate is
  non-negative, and a progress in \<open>[0, 1)\<close> if the pass adds nothing to it (\<open>deltaTime\<close>
  or the rate is \<open>0\<close>). In general the pass wraps first and adds afterwards: on doubles,
  for a non-negative increment, the step of lines 125-128 returns a value that is at
  least the increment and at most the double sum of \<open>1\<close> and the increment.
\<close>

theorem cycleProgress_after_tick:
  assumes "wellFormedGrid gs" and "0 < referenceCycleDuration gs" and "0 \<le> deltaTime"
    and "deltaTime / referenceCycleDuration gs < 2 ^ 1023"
    and "\<forall>j < length (storage gs). kind (storage gs ! j) \<noteq> NoneKind
           \<longrightarrow> cycleProgress (storage gs ! j) \<le> 2 ^ 53"
    and "k < length (storage gs)" and "kind (storage gs ! k) \<noteq> NoneKind"
    and "0 \<le> cycleProgress (storage gs ! k)"
  shows "\<exists>gs' console. gameUpdateAndRender gs deltaTime = Inr (gs', console)
      \<and> (0 \<le> currentRate (storage gs' ! k) \<longrightarrow> 0 \<le> cycleProgress (storage gs' ! k))
      \<and> (deltaTime = 0 \<or> currentRate (storage gs' ! k) = 0
           \<longrightarrow> 0 \<le> cycleProgress (storage gs' ! k) \<and> cycleProgress (storage gs' ! k) < 1)
      \<and> (\<forall>increment.
            isDouble (cycleProgress (storage gs ! k)) \<and> isDouble increment \<and> 0 \<le> increment
            \<longrightarrow> (\<exists>v. accumulateDouble (Fin (cycleProgress (storage gs ! k))) (Fin increment)
                        = Some v
                     \<and> jsGe v (Fin increment)
                     \<and> jsGe (jsAdd (Fin 1) (Fin increment)) v))"
proof -
  let ?p = "cycleProgress (storage gs ! k)"
  let ?c = "wrapCycleProgress ?p"
  obtain gs' console where r: "gameUpdateAndRender gs deltaTime = Inr (gs', console)"
    and d: "\<And>k. k < length (storage gs) \<Longrightarrow> entityDone deltaTime gs gs' k"
    using tick_facts [OF assms(1)] by blast
  have c: "cycleProgress (storage gs' ! k)
      = ?c + deltaTime / referenceCycleDuration gs * currentRate (storage gs' ! k)"
    using d [OF assms(6)] assms(7) by (simp add: entityDone_def)
  have w: "0 \<le> ?c" "?c < 1"
    using assms(8) by (simp_all add: wrapCycleProgress_nonneg wrapCycleProgress_less)
  have "0 \<le> deltaTime / referenceCycleDuration gs * currentRate (storage gs' ! k)"
    if "0 \<le> currentRate (storage gs' ! k)"
    using that assms(2,3) by simp
  then have l: "0 \<le> currentRate (storage gs' ! k) \<longrightarrow> 0 \<le> cycleProgress (storage gs' ! k)"
    using c w(1) by simp
  have z: "deltaTime = 0 \<or> currentRate (storage gs' ! k) = 0
           \<longrightarrow> 0 \<le> cycleProgress (storage gs' ! k) \<and> cycleProgress (storage gs' ! k) < 1"
    using c w by auto
  have b: "?p \<le> 2 ^ 53" using assms(5,6,7) by blast
  have a: "\<forall>increment. isDouble ?p \<and> isDouble increment \<and> 0 \<le> increment
            \<longrightarrow> (\<exists>v. accumulateDouble (Fin ?p) (Fin increment) = Some v
                     \<and> jsGe v (Fin increment)
                     \<and> jsGe (jsAdd (Fin 1) (Fin increment)) v)"
    using accumulateDouble_bounds [OF _ assms(8) b] by blast
  show ?thesis
    using r l z a by blast
qed

theorem cycleProgress_after_tick_witness:
  "wellFormedGrid exampleState \<and> 0 < referenceCycleDuration exampleState \<and> (0::real) \<le> 500
   \<and> 500 / referenceCycleDuration exampleState < 2 ^ 1023
   \<and> list_all (\<lambda>e. cycleProgress e \<le> 2 ^ 53) (storage exampleState)
   \<and> 2 < length (storage exampleState) \<and> kind (storage exampleState ! 2) \<noteq> NoneKind
   \<and> 0 \<le> cycleProgress (storage exampleState ! 2)
   \<and> 0 \<le> currentRate (storage exampleResult ! 2)
   \<and> 0 \<le> cycleProgress (storage exampleResult ! 2)
   \<and> cycleProgress (storage exampleState ! 2) = 5 / 2
   \<and> isDouble (5 / 2) \<and> isDouble (1 / 4) \<and> (0::real) \<le> 1 / 4
   \<and> (\<exists>v. accumulateDouble (Fin (5 / 2)) (Fin (1 / 4)) = Some v
          \<and> jsGe v (Fin (1 / 4)) \<and> jsGe (jsAdd (Fin 1) (Fin (1 / 4))) v)
   \<and> 5 < length (storage exampleState) \<and> kind (storage exampleState ! 5) \<noteq> NoneKind
   \<and> 0 \<le> cycleProgress (storage exampleState ! 5)
   \<and> currentRate (storage exampleResult ! 5) = 0
   \<and> 0 \<le> cycleProgress (storage exampleResult ! 5)
   \<and> cycleProgress (storage exampleResult ! 5) < 1"
proof -
  have h: "0 < referenceCycleDuration exampleState" "(0::real) \<le> 500"
    "500 / referenceCycleDuration exampleState < 2 ^ 1023"
    by (simp_all add: exampleState_def)
  have h': "2 < length (storage exampleState)" "kind (storage exampleState ! 2) \<noteq> NoneKind"
    "0 \<le> cycleProgress (storage exampleState ! 2)"
    by (simp_all add: exampleState_def)
  have e: "cycleProgress (storage exampleState ! 2) = 5 / 2" by (simp add: exampleState_def)
  obtain gs' console where r: "gameUpdateAndRender exampleState 500 = Inr (gs', console)"
    and l: "0 \<le> currentRate (storage gs' ! 2) \<longrightarrow> 0 \<le> cycleProgress (storage gs' ! 2)"
    and a: "\<forall>increment.
            isDouble (cycleProgress (storage exampleState ! 2)) \<and> isDouble increment
              \<and> 0 \<le> increment
            \<longrightarrow> (\<exists>v. accumulateDouble (Fin (cycleProgress (storage exampleState ! 2)))
                         (Fin increment) = Some v
                     \<and> jsGe v (Fin increment)
                     \<and> jsGe (jsAdd (Fin 1) (Fin increment)) v)"
    using cycleProgress_after_tick [OF wellFormedGrid_exampleState h exampleState_progress h']
    by blast
  have g: "gs' = exampleResult" using r exampleTick by simp
  have p: "0 \<le> currentRate (storage exampleResult ! 2)" by (simp add: exampleResult_def)
  have q: "0 \<le> cycleProgress (storage exampleResult ! 2)" using l g p by simp
  have i: "(0::real) \<le> 1 / 4" by simp
  have v: "\<exists>v. accumulateDouble (Fin (5 / 2)) (Fin (1 / 4)) = Some v
          \<and> jsGe v (Fin (1 / 4)) \<and> jsGe (jsAdd (Fin 1) (Fin (1 / 4))) v"
    using a isDouble_example(1,2) i unfolding e by blast
  have k: "5 < length (storage exampleState)" "kind (storage exampleState ! 5) \<noteq> NoneKind"
    "0 \<le> cycleProgress (storage exampleState ! 5)"
    by (simp_all add: exampleState_def)
  obtain gs'' console' where
    r5: "gameUpdateAndRender exampleState 500 = Inr (gs'', console')"
    and z: "500 = (0::real) \<or> currentRate (storage gs'' ! 5) = 0
           \<longrightarrow> 0 \<le> cycleProgress (storage gs'' ! 5) \<and> cycleProgress (storage gs'' ! 5) < 1"
    using cycleProgress_after_tick [OF wellFormedGrid_exampleState h exampleState_progress k]
    by blast
  have g5: "gs'' = exampleResult" using r5 exampleTick by simp
  have z0: "currentRate (storage exampleResult ! 5) = 0" by (simp add: exampleResult_def)
  have z5: "0 \<le> cycleProgress (storage exampleResult ! 5)"
    "cycleProgress (storage exampleResult ! 5) < 1"
    using z z0 unfolding g5 by blast+
  show ?thesis
    using wellFormedGrid_exampleState h h' e p q i exampleState_bounded isDouble_example(1,2)
      v k z0 z5
    by blast
qed

end
